theory Spec2Isabelle
  imports Main
begin

unbundle bit_operations_syntax

section \<open>Byte strings\<close>

text \<open>
  A Go \<open>string\<close> is a sequence of bytes; \<open>len(s)\<close> counts bytes and \<open>s[i]\<close> reads one.
  It is modelled as \<^typ>\<open>string\<close>, a list of 8-bit characters. The three bytes that
  \<open>escapeSDParam\<close> treats specially are the backslash (0x5C), the double quote (0x22) and
  the closing bracket (0x5D).
\<close>

definition backslash :: char where
  "backslash = CHR 0x5C"

definition dquote :: char where
  "dquote = CHR 0x22"

definition rbracket :: char where
  "rbracket = CHR 0x5D"

definition needsEscape :: "char \<Rightarrow> bool" where
  \<comment> \<open>the \<open>case '\\', '"', ']'\<close> of both switches of \<open>escapeSDParam\<close>\<close>
  "needsEscape c \<longleftrightarrow> c = backslash \<or> c = dquote \<or> c = rbracket"

section \<open>marshal.go: escapeSDParam\<close>

text \<open>
  The first loop counts the bytes that need an escape. The loop runs over the indices
  \<open>0 .. len(s) - 1\<close> and reads \<open>s[i]\<close>, so it is a recursion over the bytes of \<open>s\<close>.
\<close>

fun countEscapes :: "string \<Rightarrow> nat \<Rightarrow> nat" where
  "countEscapes [] escapeCount = escapeCount"
| "countEscapes (c # cs) escapeCount =
     countEscapes cs (if needsEscape c then escapeCount + 1 else escapeCount)"

text \<open>
  \<open>t[j] = c\<close> on a byte slice: Go panics when the index is out of range, so a write is
  a partial operation; \<open>None\<close> is the panic.
\<close>

definition storeByte :: "string \<Rightarrow> nat \<Rightarrow> char \<Rightarrow> string option" where
  "storeByte t j c = (if j < length t then Some (t[j := c]) else None)"

text \<open>
  The second loop fills the slice \<open>t\<close> from position \<open>j\<close> on.
\<close>

fun fillEscaped :: "string \<Rightarrow> string \<Rightarrow> nat \<Rightarrow> string option" where
  "fillEscaped [] t j = Some t"
| "fillEscaped (c # cs) t j =
     (if needsEscape c then
        (case storeByte t j backslash of
           None \<Rightarrow> None
         | Some t1 \<Rightarrow>
            (case storeByte t1 (j + 1) c of
               None \<Rightarrow> None
             | Some t2 \<Rightarrow> fillEscaped cs t2 (j + 2)))
      else
        (case storeByte t j c of
           None \<Rightarrow> None
         | Some t1 \<Rightarrow> fillEscaped cs t1 (j + 1)))"

definition escapeSDParam :: "string \<Rightarrow> string option" where
  \<comment> \<open>\<open>make([]byte, n)\<close> is a slice of \<open>n\<close> zero bytes; \<open>None\<close> is a run-time panic\<close>
  "escapeSDParam s =
     (let escapeCount = countEscapes s 0 in
      if escapeCount = 0 then Some s
      else fillEscaped s (replicate (length s + escapeCount) (CHR 0x00)) 0)"

subsection \<open>The escaping as the specification words it\<close>

definition escapeByte :: "char \<Rightarrow> string" where
  "escapeByte c = (if needsEscape c then [backslash, c] else [c])"

definition escaped :: "string \<Rightarrow> string" where
  \<comment> \<open>each reserved byte preceded by a backslash, every other byte as it is, in order\<close>
  "escaped s = concat (map escapeByte s)"

fun unescape :: "string \<Rightarrow> string" where
  \<comment> \<open>drop each backslash that precedes a backslash, a double quote or a closing bracket\<close>
  "unescape (b # c # cs) =
     (if b = backslash \<and> needsEscape c then c # unescape cs else b # unescape (c # cs))"
| "unescape cs = cs"

section \<open>Go runtime and library functions that marshal.go calls\<close>

subsection \<open>Ranging over a string\<close>

text \<open>
  \<open>for _, ch := range s\<close> walks the string rune by rune: a byte below 0x80 is its own
  rune; at any other byte the runtime's \<open>decoderune\<close> decodes one UTF-8 sequence and
  yields the rune and its width, or the replacement rune \<open>0xFFFD\<close> with width 1 when the
  bytes are no well-formed sequence. Runes are never negative here, so they are naturals.
  The masks \<open>b & 0x1F\<close>, \<open>b & 0x0F\<close>, \<open>b & 0x07\<close>, \<open>b & 0x3F\<close> are remainders, and the
  shifted parts do not overlap, so the bitwise or is a sum.
\<close>

definition byteAt :: "string \<Rightarrow> nat \<Rightarrow> nat" where
  "byteAt s i = of_char (s ! i)"

definition RuneError :: nat where
  "RuneError = 0xFFFD"

definition isContinuation :: "nat \<Rightarrow> bool" where
  \<comment> \<open>\<open>locb <= b && b <= hicb\<close>\<close>
  "isContinuation b \<longleftrightarrow> 0x80 \<le> b \<and> b \<le> 0xBF"

definition decoderune :: "string \<Rightarrow> nat \<times> nat" where
  \<comment> \<open>the rune at the head of a non-empty string and the number of bytes it takes\<close>
  "decoderune s =
     (let b0 = byteAt s 0 in
      if 0xC0 \<le> b0 \<and> b0 < 0xE0 then
        (if 1 < length s \<and> isContinuation (byteAt s 1) then
           (let r = (b0 mod 32) * 64 + byteAt s 1 mod 64 in
            if 0x7F < r then (r, 2) else (RuneError, 1))
         else (RuneError, 1))
      else if 0xE0 \<le> b0 \<and> b0 < 0xF0 then
        (if 2 < length s \<and> isContinuation (byteAt s 1) \<and> isContinuation (byteAt s 2) then
           (let r = (b0 mod 16) * 4096 + (byteAt s 1 mod 64) * 64 + byteAt s 2 mod 64 in
            if 0x7FF < r \<and> \<not> (0xD800 \<le> r \<and> r \<le> 0xDFFF) then (r, 3) else (RuneError, 1))
         else (RuneError, 1))
      else if 0xF0 \<le> b0 \<and> b0 < 0xF8 then
        (if 3 < length s \<and> isContinuation (byteAt s 1) \<and> isContinuation (byteAt s 2)
            \<and> isContinuation (byteAt s 3) then
           (let r = (b0 mod 8) * 262144 + (byteAt s 1 mod 64) * 4096
                    + (byteAt s 2 mod 64) * 64 + byteAt s 3 mod 64 in
            if 0xFFFF < r \<and> r \<le> 0x10FFFF then (r, 4) else (RuneError, 1))
         else (RuneError, 1))
      else (RuneError, 1))"

fun runes :: "string \<Rightarrow> nat list" where
  \<comment> \<open>the runes a range loop visits, in order; the width is at least 1, and the first
      byte is \<open>c\<close>, so the loop goes on at \<open>drop (w - 1) cs\<close>\<close>
  "runes [] = []"
| "runes (c # cs) =
     (if (of_char c :: nat) < 0x80 then of_char c # runes cs
      else (case decoderune (c # cs) of (r, w) \<Rightarrow> r # runes (drop (w - 1) cs)))"

subsection \<open>utf8.ValidString\<close>

text \<open>
  The library's table \<open>first\<close> gives, for a leading byte, the length of the sequence and
  the range accepted for its second byte; \<open>None\<close> stands for the entry \<open>xx\<close> of a byte
  that cannot start a sequence. Further bytes must lie in \<open>0x80 .. 0xBF\<close>.
\<close>

definition firstByteInfo :: "nat \<Rightarrow> (nat \<times> nat \<times> nat) option" where
  "firstByteInfo b =
     (if 0xC2 \<le> b \<and> b \<le> 0xDF then Some (2, 0x80, 0xBF)
      else if b = 0xE0 then Some (3, 0xA0, 0xBF)
      else if 0xE1 \<le> b \<and> b \<le> 0xEC then Some (3, 0x80, 0xBF)
      else if b = 0xED then Some (3, 0x80, 0x9F)
      else if 0xEE \<le> b \<and> b \<le> 0xEF then Some (3, 0x80, 0xBF)
      else if b = 0xF0 then Some (4, 0x90, 0xBF)
      else if 0xF1 \<le> b \<and> b \<le> 0xF3 then Some (4, 0x80, 0xBF)
      else if b = 0xF4 then Some (4, 0x80, 0x8F)
      else None)"

fun ValidString :: "string \<Rightarrow> bool" where
  "ValidString [] = True"
| "ValidString (c # cs) =
     (let si = (of_char c :: nat) in
      if si < 0x80 then ValidString cs
      else (case firstByteInfo si of
              None \<Rightarrow> False
            | Some (sz, lo, hi) \<Rightarrow>
                if length (c # cs) < sz then False
                else if byteAt cs 0 < lo \<or> hi < byteAt cs 0 then False
                else if sz = 2 then ValidString (drop 1 cs)
                else if \<not> isContinuation (byteAt cs 1) then False
                else if sz = 3 then ValidString (drop 2 cs)
                else if \<not> isContinuation (byteAt cs 2) then False
                else ValidString (drop 3 cs)))"

section \<open>The message model\<close>

text \<open>
  Modelled from the spec: the declarations of \<open>Message\<close>, \<open>StructuredData\<close> and
  \<open>SDParam\<close> are not among the source files; marshal.go reads the fields below, and the
  specification's data model gives their types. \<open>Severity\<close> and \<open>Facility\<close> are Go
  integers: validation confines them to \<open>0 .. 8\<close> and \<open>0 .. 23\<close> before any arithmetic
  is done on them, so unbounded integers lose nothing. \<open>Timestamp\<close> is a \<open>time.Time\<close>,
  modelled by the civil date, clock reading and zone offset (seconds east of UTC) that
  \<open>Format\<close> prints.
\<close>

record SDParam =
  Name :: string
  Value :: string

record StructuredData =
  ID :: string
  Parameters :: "SDParam list"

record Time =
  Year :: int
  Month :: nat
  Day :: nat
  Hour :: nat
  Minute :: nat
  Second :: nat
  Nanosecond :: nat
  ZoneOffset :: int

record Message =
  Severity :: int
  Facility :: int
  Timestamp :: Time
  Hostname :: string
  AppName :: string
  ProcessID :: string
  MessageID :: string
  StructuredData :: "StructuredData list"
  Message :: string

section \<open>marshal.go: validation\<close>

text \<open>
  \<open>errorInvalidValue\<close> carries the property's name and an \<open>interface{}\<close> value, which
  in this file is always an integer or a string.
\<close>

datatype any = IntValue int | StringValue string

datatype error = InvalidValue string any

definition allowLongSdNames :: bool where
  "allowLongSdNames = True"

definition nilify :: "string \<Rightarrow> string" where
  "nilify x = (if x = [] then ''-'' else x)"

fun printableRunes :: "nat list \<Rightarrow> bool" where
  "printableRunes [] = True"
| "printableRunes (ch # rest) = (if ch < 33 \<or> ch > 126 then False else printableRunes rest)"

definition isPrintableUsASCII :: "string \<Rightarrow> bool" where
  "isPrintableUsASCII s = printableRunes (runes s)"

fun sdNameRunes :: "nat list \<Rightarrow> bool" where
  \<comment> \<open>the loop of \<open>isValidSdName\<close>; 61, 93 and 34 are \<open>'='\<close>, \<open>']'\<close> and \<open>'"'\<close>\<close>
  "sdNameRunes [] = True"
| "sdNameRunes (ch # rest) =
     (if ch < 33 \<or> ch > 126 then False
      else if ch = 61 \<or> ch = 93 \<or> ch = 34 then False
      else sdNameRunes rest)"

text \<open>
  \<open>isValidSdName\<close> reads the package constant \<open>allowLongSdNames\<close>. The function is
  written once with the constant as an argument, so that both settings of the toggle can be
  stated; the source's function is the instance at the constant's value.
\<close>

definition isValidSdNameWith :: "bool \<Rightarrow> string \<Rightarrow> bool" where
  "isValidSdNameWith allow s =
     (if \<not> allow \<and> length s > 32 then False else sdNameRunes (runes s))"

definition isValidSdName :: "string \<Rightarrow> bool" where
  "isValidSdName = isValidSdNameWith allowLongSdNames"

fun checkParameters :: "bool \<Rightarrow> SDParam list \<Rightarrow> error option" where
  \<comment> \<open>the inner loop of \<open>assertValid\<close>; \<open>Some\<close> is its \<open>return InvalidValue(...)\<close>\<close>
  "checkParameters allow [] = None"
| "checkParameters allow (sdParam # rest) =
     (if \<not> isValidSdNameWith allow (Name sdParam) then
        Some (InvalidValue ''StructuredData/Name'' (StringValue (Name sdParam)))
      else if \<not> ValidString (Value sdParam) then
        Some (InvalidValue ''StructuredData/Value'' (StringValue (Value sdParam)))
      else checkParameters allow rest)"

fun checkElements :: "bool \<Rightarrow> StructuredData list \<Rightarrow> error option" where
  \<comment> \<open>the outer loop of \<open>assertValid\<close>\<close>
  "checkElements allow [] = None"
| "checkElements allow (sdElement # rest) =
     (if \<not> isValidSdNameWith allow (ID sdElement) then
        Some (InvalidValue ''StructuredData/ID'' (StringValue (ID sdElement)))
      else (case checkParameters allow (Parameters sdElement) of
              Some err \<Rightarrow> Some err
            | None \<Rightarrow> checkElements allow rest))"

definition assertValidWith :: "bool \<Rightarrow> Message \<Rightarrow> error option" where
  \<comment> \<open>\<open>None\<close> is the \<open>nil\<close> error\<close>
  "assertValidWith allow m =
     (if Severity m < 0 \<or> Severity m > 8 then
        Some (InvalidValue ''Severity'' (IntValue (Severity m)))
      else if Facility m < 0 \<or> Facility m > 23 then
        Some (InvalidValue ''Facility'' (IntValue (Facility m)))
      else if \<not> isPrintableUsASCII (Hostname m) then
        Some (InvalidValue ''Hostname'' (StringValue (Hostname m)))
      else if length (Hostname m) > 255 then
        Some (InvalidValue ''Hostname'' (StringValue (Hostname m)))
      else if \<not> isPrintableUsASCII (AppName m) then
        Some (InvalidValue ''AppName'' (StringValue (AppName m)))
      else if length (AppName m) > 48 then
        Some (InvalidValue ''AppName'' (StringValue (AppName m)))
      else if \<not> isPrintableUsASCII (ProcessID m) then
        Some (InvalidValue ''ProcessID'' (StringValue (ProcessID m)))
      else if length (ProcessID m) > 128 then
        Some (InvalidValue ''ProcessID'' (StringValue (ProcessID m)))
      else if \<not> isPrintableUsASCII (MessageID m) then
        Some (InvalidValue ''MessageID'' (StringValue (MessageID m)))
      else if length (MessageID m) > 32 then
        Some (InvalidValue ''MessageID'' (StringValue (MessageID m)))
      else checkElements allow (StructuredData m))"

definition assertValid :: "Message \<Rightarrow> error option" where
  "assertValid = assertValidWith allowLongSdNames"

section \<open>Formatting done by the Go library\<close>

subsection \<open>Decimal integers\<close>

definition digitChar :: "nat \<Rightarrow> char" where
  "digitChar d = ''0123456789'' ! (d mod 10)"

fun digitsOf :: "nat \<Rightarrow> string" where
  "digitsOf n = (if n < 10 then [digitChar n] else digitsOf (n div 10) @ [digitChar (n mod 10)])"

declare digitsOf.simps [simp del]

definition formatInt :: "int \<Rightarrow> string" where
  \<comment> \<open>the verb \<open>%d\<close> of \<open>fmt\<close>\<close>
  "formatInt i = (if i < 0 then ''-'' @ digitsOf (nat (- i)) else digitsOf (nat i))"

definition appendInt :: "int \<Rightarrow> nat \<Rightarrow> string" where
  \<comment> \<open>\<open>appendInt\<close> of package \<open>time\<close>: a sign, then the digits, zero-padded to \<open>width\<close>\<close>
  "appendInt x width =
     (let ds = digitsOf (nat \<bar>x\<bar>) in
      (if x < 0 then ''-'' else []) @ replicate (width - length ds) (CHR ''0'') @ ds)"

subsection \<open>Time.Format with the layout RFC3339Nano\<close>

text \<open>
  The layout is \<open>2006-01-02T15:04:05.999999999Z07:00\<close>: year, month and day, the clock,
  the fraction of the second with its trailing zeros removed (nothing at all when the
  nanoseconds are zero), and the zone, \<open>Z\<close> for offset zero and otherwise a sign, hours and
  minutes. Go's integer division truncates towards zero.
\<close>

definition quot :: "int \<Rightarrow> int \<Rightarrow> int" where
  "quot a b = sgn a * sgn b * (\<bar>a\<bar> div \<bar>b\<bar>)"

definition trimZeros :: "string \<Rightarrow> string" where
  "trimZeros s = rev (dropWhile (\<lambda>c. c = CHR ''0'') (rev s))"

definition formatNano :: "nat \<Rightarrow> string" where
  "formatNano nanosec = (if nanosec = 0 then [] else trimZeros (''.'' @ appendInt (int nanosec) 9))"

definition formatZone :: "int \<Rightarrow> string" where
  "formatZone offset =
     (if offset = 0 then ''Z''
      else (let zone = quot offset 60 in
            (if zone < 0 then ''-'' else ''+'')
            @ appendInt (\<bar>zone\<bar> div 60) 2 @ '':'' @ appendInt (\<bar>zone\<bar> mod 60) 2))"

definition formatRFC3339Nano :: "Time \<Rightarrow> string" where
  "formatRFC3339Nano t =
     appendInt (Year t) 4 @ ''-'' @ appendInt (int (Month t)) 2 @ ''-'' @ appendInt (int (Day t)) 2
     @ ''T'' @ appendInt (int (Hour t)) 2 @ '':'' @ appendInt (int (Minute t)) 2
     @ '':'' @ appendInt (int (Second t)) 2 @ formatNano (Nanosecond t) @ formatZone (ZoneOffset t)"

section \<open>marshal.go: MarshalBinary\<close>

text \<open>
  The buffer \<open>b\<close> is passed along and returned extended. \<open>escapeSDParam\<close> can in principle
  panic, so writing is partial: \<open>None\<close> is a panic.
\<close>

fun writeParameters :: "SDParam list \<Rightarrow> string \<Rightarrow> string option" where
  \<comment> \<open>\<open>fmt.Fprintf(b, " %s=\"%s\"", sdParam.Name, escapeSDParam(sdParam.Value))\<close>\<close>
  "writeParameters [] b = Some b"
| "writeParameters (sdParam # rest) b =
     (case escapeSDParam (Value sdParam) of
        None \<Rightarrow> None
      | Some v \<Rightarrow> writeParameters rest (b @ '' '' @ Name sdParam @ ''='' @ [dquote] @ v @ [dquote]))"

fun writeElements :: "StructuredData list \<Rightarrow> string \<Rightarrow> string option" where
  "writeElements [] b = Some b"
| "writeElements (sdElement # rest) b =
     (case writeParameters (Parameters sdElement) (b @ ''['' @ ID sdElement) of
        None \<Rightarrow> None
      | Some b1 \<Rightarrow> writeElements rest (b1 @ '']''))"

text \<open>
  The result of \<open>MarshalBinary\<close>: \<open>None\<close> when the call panics, \<open>Some (Inl err)\<close> for the
  return \<open>(nil, err)\<close>, \<open>Some (Inr bytes)\<close> for the return \<open>(bytes, nil)\<close>.
\<close>

definition MarshalBinaryWith :: "bool \<Rightarrow> Message \<Rightarrow> (error + string) option" where
  "MarshalBinaryWith allow m =
     (case assertValidWith allow m of
        Some err \<Rightarrow> Some (Inl err)
      | None \<Rightarrow>
         (let b0 = ''<'' @ formatInt (Severity m OR push_bit 3 (Facility m)) @ ''>1 ''
                   @ formatRFC3339Nano (Timestamp m) @ '' ''
                   @ nilify (Hostname m) @ '' ''
                   @ nilify (AppName m) @ '' ''
                   @ nilify (ProcessID m) @ '' ''
                   @ nilify (MessageID m) @ '' '';
              b1 = (if length (StructuredData m) = 0 then b0 @ ''-'' else b0)
          in (case writeElements (StructuredData m) b1 of
                None \<Rightarrow> None
              | Some b2 \<Rightarrow>
                 Some (Inr (if length (Message m) > 0 then b2 @ '' '' @ Message m else b2)))))"

definition MarshalBinary :: "Message \<Rightarrow> (error + string) option" where
  "MarshalBinary = MarshalBinaryWith allowLongSdNames"

subsection \<open>The wire format as the specification words it\<close>

definition renderParam :: "SDParam \<Rightarrow> string" where
  \<comment> \<open>a space, the name, \<open>="\<close>, the escaped value, \<open>"\<close>\<close>
  "renderParam p = '' '' @ Name p @ ''='' @ [dquote] @ escaped (Value p) @ [dquote]"

definition renderElement :: "StructuredData \<Rightarrow> string" where
  "renderElement e = ''['' @ ID e @ concat (map renderParam (Parameters e)) @ '']''"

definition renderSD :: "StructuredData list \<Rightarrow> string" where
  "renderSD sd = (if sd = [] then ''-'' else concat (map renderElement sd))"

definition nilvalue :: "string \<Rightarrow> string" where
  "nilvalue s = (if s = [] then ''-'' else s)"

definition decimalValue :: "string \<Rightarrow> nat" where
  \<comment> \<open>the number a string of decimal digits denotes\<close>
  "decimalValue ds = foldl (\<lambda>acc c. 10 * acc + (of_char c - 48)) 0 ds"

definition isDigit :: "char \<Rightarrow> bool" where
  "isDigit c \<longleftrightarrow> 48 \<le> (of_char c :: nat) \<and> (of_char c :: nat) \<le> 57"

definition wireHeader :: "string \<Rightarrow> Message \<Rightarrow> string" where
  \<comment> \<open>\<open><PRI>1 TIMESTAMP HOST APPNAME PROCID MSGID\<close> and the space after it, for a given
      rendering of PRI\<close>
  "wireHeader pri m =
     ''<'' @ pri @ ''>1 '' @ formatRFC3339Nano (Timestamp m)
     @ '' '' @ nilvalue (Hostname m) @ '' '' @ nilvalue (AppName m)
     @ '' '' @ nilvalue (ProcessID m) @ '' '' @ nilvalue (MessageID m) @ '' ''"

definition wireBody :: "Message \<Rightarrow> string" where
  \<comment> \<open>one space and the body when the body is not empty, nothing otherwise\<close>
  "wireBody m = (if Message m = [] then [] else '' '' @ Message m)"

definition wireFormat :: "string \<Rightarrow> Message \<Rightarrow> string" where
  \<comment> \<open>\<open><PRI>1 TIMESTAMP HOST APPNAME PROCID MSGID SD[ MESSAGE]\<close>\<close>
  "wireFormat pri m = wireHeader pri m @ renderSD (StructuredData m) @ wireBody m"

definition PRI :: "Message \<Rightarrow> int" where
  \<comment> \<open>\<open>Severity | (Facility << 3)\<close>\<close>
  "PRI m = Severity m OR push_bit 3 (Facility m)"

definition example8 :: Message where
  \<comment> \<open>the end-to-end example of the specification\<close>
  "example8 =
     \<lparr> Severity = 2, Facility = 4,
       Timestamp = \<lparr> Year = 2003, Month = 10, Day = 11, Hour = 22, Minute = 14, Second = 15,
                     Nanosecond = 3000000, ZoneOffset = 0 \<rparr>,
       Hostname = ''mymachine.example.com'', AppName = ''su'', ProcessID = [],
       MessageID = ''ID47'', StructuredData = [],
       Message = [CHR 0x27] @ ''su root'' @ [CHR 0x27] @ '' failed for lonvick on /dev/pts/8'' \<rparr>"

section \<open>reflect.go\<close>

subsection \<open>Types, fields and what the package takes from elsewhere\<close>

text \<open>
  A \<open>reflect.Type\<close> of a struct is modelled by an identity, the type's name and its fields
  in declaration order. Two Go types are the same type exactly when their identities agree,
  and a type's identity fixes its name and fields, so the comparison \<open>r.Type == t\<close> is
  equality of these records. A \<open>reflect.StructField\<close> is its name, the value of its
  \<open>log\<close> tag (what \<open>field.Tag.Get("log")\<close> returns) and its package path, which is empty
  for an exported field.
\<close>

record StructField =
  Name' :: string
  Tag :: string
  PkgPath :: string

record rtype =
  Ident :: nat
  TypeName :: string
  Fields :: "StructField list"

text \<open>
  Modelled from the spec: the severity and facility tables and the constants \<open>Info\<close> and
  \<open>Local0\<close> are declared outside the source files at hand; the specification calls them
  already-defined immutable tables, and they are taken as parameters. The default
  application name is read from the process environment once, and \<open>strings.ToLower\<close> is
  the library's function.
\<close>

record environment =
  defaultSeverity :: int
  defaultFacility :: int
  defaultAppName :: string
  severityNames :: "string \<rightharpoonup> int"
  facilityNames :: "string \<rightharpoonup> int"
  ToLower :: "string \<Rightarrow> string"

definition defaultStructuredDataID :: string where
  "defaultStructuredDataID = ''0@local''"

record structuredDataFieldReflection =
  FieldIndex :: int
  OmitEmpty :: bool
  FieldName :: string
  SdID :: string

record reflection =
  Type :: rtype
  SeverityFieldIndex :: int
  SeverityDefault :: int
  FacilityFieldIndex :: int
  FacilityDefault :: int
  TimestampFieldIndex :: int
  HostnameFieldIndex :: int
  AppNameFieldIndex :: int
  AppNameDefault :: string
  ProcessIDFieldIndex :: int
  MessageIDFieldIndex :: int
  MessageIDDefault :: string
  MessageFieldIndex :: int
  SDIDDefault :: string
  StructuredDataFieldReflections :: "structuredDataFieldReflection list"

subsection \<open>Library functions\<close>

fun Split :: "string \<Rightarrow> string list" where
  \<comment> \<open>\<open>strings.Split(s, ",")\<close>: the pieces between the commas, at least one piece\<close>
  "Split [] = [] # []"
| "Split (c # cs) =
     (if c = CHR '','' then [] # Split cs
      else (case Split cs of [] \<Rightarrow> [c] # [] | p # ps \<Rightarrow> (c # p) # ps))"

definition isSpace :: "char \<Rightarrow> bool" where
  \<comment> \<open>the class \<open>\s\<close> of Go's regular expressions: tab, newline, form feed, return, space\<close>
  "isSpace c \<longleftrightarrow> c = CHR 0x09 \<or> c = CHR 0x0A \<or> c = CHR 0x0C \<or> c = CHR 0x0D \<or> c = CHR 0x20"

text \<open>
  \<open>sdRegexp\<close> is \<open>^(\d+@\S+)( (.*))?$\<close>. A match takes all leading digits, which
  must be followed by \<open>@\<close>, then the whole run of non-space bytes, which must not be
  empty; after it the text ends, or a single space follows and then bytes up to the end
  of the text none of which is a newline. The result is the first and the third group of
  the match, the third being empty when the optional part is absent; \<open>None\<close> is the
  \<open>nil\<close> of \<open>FindAllStringSubmatch\<close>.
\<close>

definition sdRegexpMatch :: "string \<Rightarrow> (string \<times> string) option" where
  "sdRegexpMatch s =
     (let ds = takeWhile isDigit s; r1 = dropWhile isDigit s in
      if ds = [] then None
      else (case r1 of
              [] \<Rightarrow> None
            | c # r2 \<Rightarrow>
               if c \<noteq> CHR ''@'' then None
               else (let tok = takeWhile (\<lambda>x. \<not> isSpace x) r2;
                         r3 = dropWhile (\<lambda>x. \<not> isSpace x) r2 in
                     if tok = [] then None
                     else (case r3 of
                             [] \<Rightarrow> Some (ds @ ''@'' @ tok, [])
                           | d # r4 \<Rightarrow>
                              if d = CHR 0x20 \<and> CHR 0x0A \<notin> set r4
                              then Some (ds @ ''@'' @ tok, r4) else None))))"

subsection \<open>reflectImpl\<close>

text \<open>
  A panic is the left injection and carries its message. The loop over the attributes of
  a tag switches on \<open>tagParts[1]\<close> in every round, as the source does; \<open>tagAttr\<close> only
  appears in the message of the panic.
\<close>

fun tagAttrLoop ::
  "string list \<Rightarrow> string \<Rightarrow> string \<Rightarrow> string \<Rightarrow> structuredDataFieldReflection
   \<Rightarrow> string + structuredDataFieldReflection" where
  "tagAttrLoop [] tagPart1 fieldName typeName fieldReflection = Inr fieldReflection"
| "tagAttrLoop (tagAttr # rest) tagPart1 fieldName typeName fieldReflection =
     (if tagPart1 = ''omitempty''
      then tagAttrLoop rest tagPart1 fieldName typeName (fieldReflection \<lparr> OmitEmpty := True \<rparr>)
      else Inl (''unknown tag '' @ tagAttr @ '' on field '' @ fieldName @ '' of '' @ typeName))"

definition structuredDataField ::
  "environment \<Rightarrow> rtype \<Rightarrow> int \<Rightarrow> StructField \<Rightarrow> reflection \<Rightarrow> string + reflection" where
  \<comment> \<open>the \<open>default\<close> branch of the switch on the field's name\<close>
  "structuredDataField env t fieldIndex field r =
     (if Tag field = [] \<and> PkgPath field \<noteq> [] then Inr r
      else
        (case Split (Tag field) of
           [] \<Rightarrow> Inl ''index out of range''
         | tagPart0 # attrs \<Rightarrow>
            if attrs \<noteq> [] \<and> tagPart0 = [] \<and> hd attrs = ''message''
            then Inr (r \<lparr> MessageFieldIndex := fieldIndex \<rparr>)
            else
              (let fr0 = \<lparr> FieldIndex = fieldIndex, OmitEmpty = False, FieldName = tagPart0,
                          SdID = (if SDIDDefault r \<noteq> [] then SDIDDefault r
                                  else defaultStructuredDataID) \<rparr>;
                   fr1 = (case sdRegexpMatch (FieldName fr0) of
                            None \<Rightarrow> fr0
                          | Some (g1, g3) \<Rightarrow> fr0 \<lparr> FieldName := g3, SdID := g1 \<rparr>)
               in
               (case (if FieldName fr1 = []
                      then (case Name' field of
                              [] \<Rightarrow> Inl ''slice bounds out of range''
                            | c # cs \<Rightarrow> Inr (fr1 \<lparr> FieldName := ToLower env [c] @ cs \<rparr>))
                      else Inr fr1) of
                  Inl msg \<Rightarrow> Inl msg
                | Inr fr2 \<Rightarrow>
                   (case (if attrs \<noteq> []
                          then tagAttrLoop attrs (hd attrs) (Name' field) (TypeName t) fr2
                          else Inr fr2) of
                      Inl msg \<Rightarrow> Inl msg
                    | Inr fr3 \<Rightarrow>
                       Inr (r \<lparr> StructuredDataFieldReflections :=
                                   StructuredDataFieldReflections r @ [fr3] \<rparr>))))))"

definition reflectField ::
  "environment \<Rightarrow> rtype \<Rightarrow> int \<Rightarrow> StructField \<Rightarrow> reflection \<Rightarrow> string + reflection" where
  \<comment> \<open>one round of the loop over the fields\<close>
  "reflectField env t fieldIndex field r =
     (let fieldTag = Tag field in
      if Name' field = ''Severity'' then
        (let r1 = r \<lparr> SeverityFieldIndex := fieldIndex \<rparr> in
         if fieldTag \<noteq> [] then
           (case severityNames env fieldTag of
              None \<Rightarrow> Inl ''invalid tag on Severity field''
            | Some severity \<Rightarrow> Inr (r1 \<lparr> SeverityDefault := severity \<rparr>))
         else Inr r1)
      else if Name' field = ''Facility'' then
        (let r1 = r \<lparr> FacilityFieldIndex := fieldIndex \<rparr> in
         if fieldTag \<noteq> [] then
           (case facilityNames env fieldTag of
              None \<Rightarrow> Inl ''invalid tag on Facility field''
            | Some facility \<Rightarrow> Inr (r1 \<lparr> FacilityDefault := facility \<rparr>))
         else Inr r1)
      else if Name' field = ''Timestamp'' then Inr (r \<lparr> TimestampFieldIndex := fieldIndex \<rparr>)
      else if Name' field = ''Hostname'' then Inr (r \<lparr> HostnameFieldIndex := fieldIndex \<rparr>)
      else if Name' field = ''AppName'' then
        (let r1 = r \<lparr> AppNameFieldIndex := fieldIndex \<rparr> in
         Inr (if fieldTag \<noteq> [] then r1 \<lparr> AppNameDefault := fieldTag \<rparr> else r1))
      else if Name' field = ''ProcessID'' then Inr (r \<lparr> ProcessIDFieldIndex := fieldIndex \<rparr>)
      else if Name' field = ''MessageID'' then
        (let r1 = r \<lparr> MessageIDFieldIndex := fieldIndex \<rparr> in
         Inr (if fieldTag \<noteq> [] then r1 \<lparr> MessageIDDefault := fieldTag \<rparr> else r1))
      else if Name' field = ''SDID'' then
        Inr (if fieldTag \<noteq> [] then r \<lparr> SDIDDefault := fieldTag \<rparr> else r)
      else if Name' field = ''Message'' then Inr (r \<lparr> MessageFieldIndex := fieldIndex \<rparr>)
      else structuredDataField env t fieldIndex field r)"

fun reflectFields ::
  "environment \<Rightarrow> rtype \<Rightarrow> int \<Rightarrow> StructField list \<Rightarrow> reflection \<Rightarrow> string + reflection" where
  \<comment> \<open>the loop \<open>for fieldIndex := 0; fieldIndex < t.NumField(); fieldIndex++\<close>, from
      \<open>fieldIndex\<close> on, over the fields that are left\<close>
  "reflectFields env t fieldIndex [] r = Inr r"
| "reflectFields env t fieldIndex (field # rest) r =
     (case reflectField env t fieldIndex field r of
        Inl msg \<Rightarrow> Inl msg
      | Inr r1 \<Rightarrow> reflectFields env t (fieldIndex + 1) rest r1)"

definition reflectImpl :: "environment \<Rightarrow> rtype \<Rightarrow> string + reflection" where
  "reflectImpl env t =
     reflectFields env t 0 (Fields t)
       \<lparr> Type = t,
         SeverityFieldIndex = - 1,
         SeverityDefault = defaultSeverity env,
         FacilityFieldIndex = - 1,
         FacilityDefault = defaultFacility env,
         TimestampFieldIndex = - 1,
         HostnameFieldIndex = - 1,
         AppNameFieldIndex = - 1,
         AppNameDefault = defaultAppName env,
         ProcessIDFieldIndex = - 1,
         MessageIDFieldIndex = - 1,
         MessageIDDefault = TypeName t,
         MessageFieldIndex = - 1,
         SDIDDefault = [],
         StructuredDataFieldReflections = [] \<rparr>"

subsection \<open>Reflect and the cache\<close>

text \<open>
  \<open>reflectionCache\<close> maps a type's name to the reflections of the types of that name.
  \<open>Reflect\<close> reads and writes it, so the cache is passed in and returned. When
  \<open>reflectImpl\<close> panics the map has not been written.
\<close>

type_synonym cache = "string \<rightharpoonup> reflection list"

definition Reflect :: "environment \<Rightarrow> cache \<Rightarrow> rtype \<Rightarrow> (string + reflection) \<times> cache" where
  "Reflect env reflectionCache t =
     (case reflectionCache (TypeName t) of
        None \<Rightarrow>
          (case reflectImpl env t of
             Inl msg \<Rightarrow> (Inl msg, reflectionCache)
           | Inr r \<Rightarrow> (Inr r, reflectionCache (TypeName t \<mapsto> [r])))
      | Some reflectionList \<Rightarrow>
          (case find (\<lambda>r. Type r = t) reflectionList of
             Some r \<Rightarrow> (Inr r, reflectionCache)
           | None \<Rightarrow>
              (case reflectImpl env t of
                 Inl msg \<Rightarrow> (Inl msg, reflectionCache)
               | Inr r \<Rightarrow> (Inr r, reflectionCache (TypeName t \<mapsto> reflectionList @ [r])))))"

fun reflectAll :: "environment \<Rightarrow> cache \<Rightarrow> rtype list \<Rightarrow> cache" where
  \<comment> \<open>the cache after a series of calls of \<open>Reflect\<close>, whatever each call returned\<close>
  "reflectAll env reflectionCache [] = reflectionCache"
| "reflectAll env reflectionCache (t # ts) = reflectAll env (snd (Reflect env reflectionCache t)) ts"

subsection \<open>Example inputs\<close>

definition lowerByte :: "char \<Rightarrow> string" where
  \<comment> \<open>\<open>strings.ToLower\<close> on the one-byte string \<open>[c]\<close>: a capital ASCII letter becomes the
      small one, any other ASCII byte stays, and a byte from 0x80 on, which alone is not
      valid UTF-8, becomes the replacement character U+FFFD, the bytes EF BF BD\<close>
  "lowerByte c =
     (if 65 \<le> (of_char c :: nat) \<and> (of_char c :: nat) \<le> 90
      then [''abcdefghijklmnopqrstuvwxyz'' ! ((of_char c :: nat) - 65)]
      else if (of_char c :: nat) < 0x80 then [c]
      else [CHR 0xEF, CHR 0xBF, CHR 0xBD])"

definition toLowerBytes :: "string \<Rightarrow> string" where
  \<comment> \<open>\<open>strings.ToLower\<close> as \<open>reflectImpl\<close> calls it, on \<open>field.Name[0:1]\<close>, a string of one
      byte; on longer strings it agrees with the library when all bytes are ASCII\<close>
  "toLowerBytes s = concat (map lowerByte s)"

definition exampleEnv :: environment where
  \<comment> \<open>the severities and facilities of RFC 5424 that the examples need\<close>
  "exampleEnv =
     \<lparr> defaultSeverity = 6, defaultFacility = 16, defaultAppName = ''app'',
       severityNames = [''crit'' \<mapsto> 2, ''info'' \<mapsto> 6],
       facilityNames = [''auth'' \<mapsto> 4, ''local0'' \<mapsto> 16],
       ToLower = toLowerBytes \<rparr>"

definition bogusType :: rtype where
  \<comment> \<open>a struct with one exported field, tagged \<open>log:"name,omitempty,bogus"\<close>\<close>
  "bogusType =
     \<lparr> Ident = 1, TypeName = ''Event'',
       Fields = [\<lparr> Name' = ''Foo'', Tag = ''name,omitempty,bogus'', PkgPath = [] \<rparr>] \<rparr>"

definition orderType :: rtype where
  \<comment> \<open>the ordering example of the specification: \<open>b\<close> in element X, \<open>a\<close> in Y, \<open>c\<close> in X\<close>
  "orderType =
     \<lparr> Ident = 2, TypeName = ''Ordered'',
       Fields = [\<lparr> Name' = ''Severity'', Tag = ''crit'', PkgPath = [] \<rparr>,
                 \<lparr> Name' = ''B'', Tag = ''1@x b'', PkgPath = [] \<rparr>,
                 \<lparr> Name' = ''hidden'', Tag = [], PkgPath = ''main'' \<rparr>,
                 \<lparr> Name' = ''A'', Tag = ''2@y a'', PkgPath = [] \<rparr>,
                 \<lparr> Name' = ''C'', Tag = ''1@x c,omitempty'', PkgPath = [] \<rparr>] \<rparr>"

definition orderReflection :: reflection where
  \<comment> \<open>what \<open>reflectImpl\<close> computes for \<open>orderType\<close> in \<open>exampleEnv\<close>\<close>
  "orderReflection =
     \<lparr> Type = orderType,
       SeverityFieldIndex = 0, SeverityDefault = 2,
       FacilityFieldIndex = - 1, FacilityDefault = 16,
       TimestampFieldIndex = - 1, HostnameFieldIndex = - 1,
       AppNameFieldIndex = - 1, AppNameDefault = ''app'',
       ProcessIDFieldIndex = - 1,
       MessageIDFieldIndex = - 1, MessageIDDefault = ''Ordered'',
       MessageFieldIndex = - 1, SDIDDefault = [],
       StructuredDataFieldReflections =
         [\<lparr> FieldIndex = 1, OmitEmpty = False, FieldName = ''b'', SdID = ''1@x'' \<rparr>,
          \<lparr> FieldIndex = 3, OmitEmpty = False, FieldName = ''a'', SdID = ''2@y'' \<rparr>,
          \<lparr> FieldIndex = 4, OmitEmpty = True, FieldName = ''c'', SdID = ''1@x'' \<rparr>] \<rparr>"

subsection \<open>The invariant of the cache\<close>

definition cacheOK :: "environment \<Rightarrow> cache \<Rightarrow> bool" where
  \<comment> \<open>every stored reflection is what \<open>reflectImpl\<close> computes for its type\<close>
  "cacheOK env reflectionCache \<longleftrightarrow>
     (\<forall>name reflectionList r. reflectionCache name = Some reflectionList
        \<longrightarrow> r \<in> set reflectionList \<longrightarrow> reflectImpl env (Type r) = Inr r)"

definition descriptorsBelow :: "int \<Rightarrow> reflection \<Rightarrow> bool" where
  \<comment> \<open>the descriptors are listed by strictly increasing field index, all below \<open>n\<close>\<close>
  "descriptorsBelow n r \<longleftrightarrow>
     sorted_wrt (<) (map FieldIndex (StructuredDataFieldReflections r))
     \<and> list_all (\<lambda>d. 0 \<le> FieldIndex d \<and> FieldIndex d < n) (StructuredDataFieldReflections r)"

section \<open>The validation rules as the specification words them\<close>

definition printableByte :: "char \<Rightarrow> bool" where
  \<comment> \<open>printable US-ASCII: codes 33 to 126\<close>
  "printableByte c \<longleftrightarrow> 33 \<le> (of_char c :: nat) \<and> (of_char c :: nat) \<le> 126"

definition sdNameByte :: "char \<Rightarrow> bool" where
  \<comment> \<open>printable US-ASCII other than \<open>=\<close>, \<open>]\<close> and \<open>"\<close>\<close>
  "sdNameByte c \<longleftrightarrow> printableByte c \<and> c \<noteq> CHR ''='' \<and> c \<noteq> rbracket \<and> c \<noteq> dquote"

definition fieldRule :: "nat \<Rightarrow> string \<Rightarrow> bool" where
  \<comment> \<open>a header string: printable US-ASCII within its length ceiling (the empty string passes)\<close>
  "fieldRule ceiling s \<longleftrightarrow> list_all printableByte s \<and> length s \<le> ceiling"

definition sdNameRule :: "bool \<Rightarrow> string \<Rightarrow> bool" where
  \<comment> \<open>the sd-name rule; the 32-byte ceiling applies unless the toggle allows long names\<close>
  "sdNameRule allow s \<longleftrightarrow> (allow \<or> length s \<le> 32) \<and> list_all sdNameByte s"

definition violation :: "bool \<Rightarrow> string \<Rightarrow> any \<Rightarrow> (string \<times> any) list" where
  \<comment> \<open>the property and its value when the rule is broken, nothing otherwise\<close>
  "violation ok property v = (if ok then [] else [(property, v)])"

definition paramViolations :: "bool \<Rightarrow> SDParam \<Rightarrow> (string \<times> any) list" where
  "paramViolations allow p =
     violation (sdNameRule allow (Name p)) ''StructuredData/Name'' (StringValue (Name p))
     @ violation (ValidString (Value p)) ''StructuredData/Value'' (StringValue (Value p))"

definition elementViolations :: "bool \<Rightarrow> StructuredData \<Rightarrow> (string \<times> any) list" where
  "elementViolations allow e =
     violation (sdNameRule allow (ID e)) ''StructuredData/ID'' (StringValue (ID e))
     @ concat (map (paramViolations allow) (Parameters e))"

definition ruleViolations :: "bool \<Rightarrow> Message \<Rightarrow> (string \<times> any) list" where
  \<comment> \<open>every broken rule of a message, with the offending property and value, in the order
      severity, facility, host name, application name, process id, message id, structured data\<close>
  "ruleViolations allow m =
     violation (0 \<le> Severity m \<and> Severity m \<le> 8) ''Severity'' (IntValue (Severity m))
     @ violation (0 \<le> Facility m \<and> Facility m \<le> 23) ''Facility'' (IntValue (Facility m))
     @ violation (fieldRule 255 (Hostname m)) ''Hostname'' (StringValue (Hostname m))
     @ violation (fieldRule 48 (AppName m)) ''AppName'' (StringValue (AppName m))
     @ violation (fieldRule 128 (ProcessID m)) ''ProcessID'' (StringValue (ProcessID m))
     @ violation (fieldRule 32 (MessageID m)) ''MessageID'' (StringValue (MessageID m))
     @ concat (map (elementViolations allow) (StructuredData m))"

definition firstViolation :: "bool \<Rightarrow> Message \<Rightarrow> error option" where
  "firstViolation allow m =
     (case ruleViolations allow m of [] \<Rightarrow> None | (property, v) # _ \<Rightarrow> Some (InvalidValue property v))"

definition longName33 :: string where
  \<comment> \<open>a name of 33 letters\<close>
  "longName33 = replicate 33 (CHR ''a'')"

definition messageLongID :: Message where
  \<comment> \<open>the example of the specification with one structured-data element named by 33 letters\<close>
  "messageLongID = example8 \<lparr> StructuredData := [\<lparr> ID = longName33, Parameters = [] \<rparr>] \<rparr>"

definition messageLongName :: Message where
  \<comment> \<open>the same example with one element \<open>x\<close> whose only parameter is named by 33 letters\<close>
  "messageLongName =
     example8 \<lparr> StructuredData :=
       [\<lparr> ID = ''x'', Parameters = [\<lparr> Name = longName33, Value = ''v'' \<rparr>] \<rparr>] \<rparr>"

section \<open>Properties of escapeSDParam\<close>

lemma countEscapes_acc:
  "countEscapes s n = n + length (filter needsEscape s)"
  by (induction s arbitrary: n) auto

lemma length_escaped:
  "length (escaped s) = length s + length (filter needsEscape s)"
  by (induction s) (auto simp: escaped_def escapeByte_def)

lemma escaped_Nil [simp]: "escaped [] = []"
  by (simp add: escaped_def)

lemma escaped_Cons:
  "escaped (c # cs) = escapeByte c @ escaped cs"
  by (simp add: escaped_def)

lemma escaped_no_reserved:
  "filter needsEscape s = [] \<Longrightarrow> escaped s = s"
  by (induction s) (auto simp: escaped_Cons escapeByte_def split: if_splits)

lemma fillEscaped_frame:
  "j + length (escaped s) \<le> length t \<Longrightarrow>
   fillEscaped s t j = Some (take j t @ escaped s @ drop (j + length (escaped s)) t)"
proof (induction s arbitrary: t j)
  case Nil
  then show ?case by simp
next
  case (Cons c cs)
  show ?case
  proof (cases "needsEscape c")
    case True
    from Cons.prems True have len: "j + 2 + length (escaped cs) \<le> length t"
      by (simp add: escaped_Cons escapeByte_def)
    define t2 where "t2 = t[j := backslash, j + 1 := c]"
    have l2: "length t2 = length t" by (simp add: t2_def)
    have step: "fillEscaped (c # cs) t j = fillEscaped cs t2 (j + 2)"
      using len True by (simp add: storeByte_def t2_def)
    have tk: "take (j + 2) t2 = take j t @ [backslash, c]"
      using len by (simp add: t2_def take_Suc_conv_app_nth numeral_2_eq_2)
    have dr: "drop (j + 2 + length (escaped cs)) t2 = drop (j + 2 + length (escaped cs)) t"
      by (simp add: t2_def)
    have "fillEscaped cs t2 (j + 2)
          = Some (take (j + 2) t2 @ escaped cs @ drop (j + 2 + length (escaped cs)) t2)"
      using Cons.IH [of "j + 2" t2] len l2 by simp
    then show ?thesis
      using step tk dr True by (simp add: escaped_Cons escapeByte_def add.assoc)
  next
    case False
    from Cons.prems False have len: "j + 1 + length (escaped cs) \<le> length t"
      by (simp add: escaped_Cons escapeByte_def)
    define t1 where "t1 = t[j := c]"
    have l1: "length t1 = length t" by (simp add: t1_def)
    have step: "fillEscaped (c # cs) t j = fillEscaped cs t1 (j + 1)"
      using len False by (simp add: storeByte_def t1_def)
    have tk: "take (j + 1) t1 = take j t @ [c]"
      using len by (simp add: t1_def take_Suc_conv_app_nth)
    have dr: "drop (j + 1 + length (escaped cs)) t1 = drop (j + 1 + length (escaped cs)) t"
      by (simp add: t1_def)
    have "fillEscaped cs t1 (j + 1)
          = Some (take (j + 1) t1 @ escaped cs @ drop (j + 1 + length (escaped cs)) t1)"
      using Cons.IH [of "j + 1" t1] len l1 by simp
    then show ?thesis
      using step tk dr False by (simp add: escaped_Cons escapeByte_def add.assoc)
  qed
qed

lemma escapeSDParam_escaped:
  "escapeSDParam s = Some (escaped s)"
proof (cases "filter needsEscape s = []")
  case True
  then show ?thesis
    by (simp add: escapeSDParam_def countEscapes_acc escaped_no_reserved)
next
  case False
  have "fillEscaped s (replicate (length (escaped s)) (CHR 0x00)) 0 = Some (escaped s)"
    using fillEscaped_frame [of 0 s "replicate (length (escaped s)) (CHR 0x00)"] by simp
  with False show ?thesis
    by (simp add: escapeSDParam_def countEscapes_acc length_escaped)
qed

lemma unescape_escaped:
  "unescape (escaped s) = s"
proof (induction s)
  case Nil
  then show ?case by simp
next
  case (Cons c cs)
  show ?case
  proof (cases "needsEscape c")
    case True
    with Cons show ?thesis by (simp add: escaped_Cons escapeByte_def)
  next
    case False
    then have nb: "c \<noteq> backslash" by (auto simp: needsEscape_def)
    show ?thesis
    proof (cases "escaped cs")
      case Nil
      with Cons False show ?thesis by (simp add: escaped_Cons escapeByte_def)
    next
      case (Cons d ds)
      with Cons.IH False nb show ?thesis by (simp add: escaped_Cons escapeByte_def)
    qed
  qed
qed


text \<open>
  C5. For every input string, \<open>escapeSDParam\<close> returns normally (no write of the second
  loop is out of range) and its result is the input with each backslash, double quote and
  closing bracket preceded by a backslash and every other byte unchanged, in the same
  order; an input that holds none of the three bytes is returned as it is.
\<close>

theorem escapeSDParam_spec:
  "escapeSDParam s = Some (concat (map (\<lambda>c. if c = backslash \<or> c = dquote \<or> c = rbracket
                                         then [backslash, c] else [c]) s))
   \<and> ((\<forall>c \<in> set s. c \<noteq> backslash \<and> c \<noteq> dquote \<and> c \<noteq> rbracket)
        \<longrightarrow> escapeSDParam s = Some s)"
proof -
  have e: "escaped s = concat (map (\<lambda>c. if c = backslash \<or> c = dquote \<or> c = rbracket
                                         then [backslash, c] else [c]) s)"
    by (simp add: escaped_def escapeByte_def [abs_def] needsEscape_def)
  have "filter needsEscape s = []"
    if "\<forall>c \<in> set s. c \<noteq> backslash \<and> c \<noteq> dquote \<and> c \<noteq> rbracket"
    using that by (auto simp: filter_empty_conv needsEscape_def)
  then show ?thesis
    using e escapeSDParam_escaped [of s] escaped_no_reserved [of s] by auto
qed

theorem escapeSDParam_spec_witness:
  "set ''iut=3'' \<inter> {backslash, dquote, rbracket} = {}
   \<and> escapeSDParam ''iut=3'' = Some ''iut=3''
   \<and> escapeSDParam ''bracket]'' = Some (''bracket'' @ [backslash, rbracket])"
  using escapeSDParam_spec [of "''iut=3''"] escapeSDParam_spec [of "''bracket]''"]
  by (simp add: backslash_def dquote_def rbracket_def)

text \<open>
  C6. Escaping round-trips: removing from the output of \<open>escapeSDParam\<close> each backslash
  that precedes a backslash, a double quote or a closing bracket gives the input back,
  for every input string.
\<close>

theorem escapeSDParam_roundtrip:
  "map_option unescape (escapeSDParam s) = Some s"
  by (simp add: escapeSDParam_escaped unescape_escaped)

section \<open>Validation follows the rules\<close>

lemma decoderune_big: "0x7F < fst (decoderune s)"
  by (simp add: decoderune_def RuneError_def Let_def)

lemma printableRunes_runes:
  "printableRunes (runes s) \<longleftrightarrow> list_all printableByte s"
proof (induction s rule: runes.induct)
  case 1
  then show ?case by simp
next
  case (2 c cs)
  show ?case
  proof (cases "(of_char c :: nat) < 0x80")
    case True
    with 2 show ?thesis by (auto simp: printableByte_def)
  next
    case False
    obtain r w where d: "decoderune (c # cs) = (r, w)" by (cases "decoderune (c # cs)")
    with decoderune_big [of "c # cs"] have "0x7F < r" by simp
    with False d show ?thesis by (simp add: printableByte_def)
  qed
qed

lemma of_char_eq_iff: "(of_char c :: nat) = of_char d \<longleftrightarrow> c = d"
  by (metis char_of_char)

lemma sdNameRunes_runes:
  "sdNameRunes (runes s) \<longleftrightarrow> list_all sdNameByte s"
proof (induction s rule: runes.induct)
  case 1
  then show ?case by simp
next
  case (2 c cs)
  show ?case
  proof (cases "(of_char c :: nat) < 0x80")
    case True
    have e: "(of_char c :: nat) = 61 \<longleftrightarrow> c = CHR ''=''"
       "(of_char c :: nat) = 93 \<longleftrightarrow> c = rbracket"
       "(of_char c :: nat) = 34 \<longleftrightarrow> c = dquote"
      using of_char_eq_iff [of c "CHR ''=''"] of_char_eq_iff [of c rbracket] of_char_eq_iff [of c dquote]
      by (simp_all add: rbracket_def dquote_def)
    with 2 True show ?thesis by (auto simp: printableByte_def sdNameByte_def)
  next
    case False
    obtain r w where d: "decoderune (c # cs) = (r, w)" by (cases "decoderune (c # cs)")
    with decoderune_big [of "c # cs"] have "0x7F < r" by simp
    with False d show ?thesis by (simp add: printableByte_def sdNameByte_def)
  qed
qed

lemma isPrintableUsASCII_bytes:
  "isPrintableUsASCII s \<longleftrightarrow> list_all printableByte s"
  by (simp add: isPrintableUsASCII_def printableRunes_runes)

lemma isValidSdNameWith_rule:
  "isValidSdNameWith allow s \<longleftrightarrow> sdNameRule allow s"
  by (auto simp: isValidSdNameWith_def sdNameRule_def sdNameRunes_runes)

lemma checkParameters_violations:
  "checkParameters allow ps =
     (case concat (map (paramViolations allow) ps) of
        [] \<Rightarrow> None | (property, v) # _ \<Rightarrow> Some (InvalidValue property v))"
  by (induction ps)
     (simp_all add: paramViolations_def violation_def isValidSdNameWith_rule)

lemma checkElements_violations:
  "checkElements allow es =
     (case concat (map (elementViolations allow) es) of
        [] \<Rightarrow> None | (property, v) # _ \<Rightarrow> Some (InvalidValue property v))"
proof (induction es)
  case Nil
  then show ?case by simp
next
  case (Cons e es)
  define pv where "pv = concat (map (paramViolations allow) (Parameters e))"
  define rest where "rest = concat (map (elementViolations allow) es)"
  have cp: "checkParameters allow (Parameters e) =
              (case pv of [] \<Rightarrow> None | (property, v) # _ \<Rightarrow> Some (InvalidValue property v))"
    by (simp add: pv_def checkParameters_violations)
  have ih: "checkElements allow es =
              (case rest of [] \<Rightarrow> None | (property, v) # _ \<Rightarrow> Some (InvalidValue property v))"
    by (simp add: rest_def Cons.IH)
  have all: "concat (map (elementViolations allow) (e # es)) =
               violation (sdNameRule allow (ID e)) ''StructuredData/ID'' (StringValue (ID e))
               @ pv @ rest"
    by (simp add: pv_def rest_def elementViolations_def)
  show ?case
    unfolding all
    by (cases pv) (auto simp: cp ih violation_def isValidSdNameWith_rule)
qed

lemma assertValidWith_firstViolation:
  "assertValidWith allow m = firstViolation allow m"
  unfolding assertValidWith_def firstViolation_def ruleViolations_def
  by (simp add: violation_def fieldRule_def isPrintableUsASCII_bytes checkElements_violations
      not_le not_less)

lemma checkParameters_append:
  "checkParameters allow (ps @ qs) =
     (case checkParameters allow ps of Some err \<Rightarrow> Some err | None \<Rightarrow> checkParameters allow qs)"
  by (induction ps) simp_all

lemma checkElements_append:
  "checkElements allow (es @ fs) =
     (case checkElements allow es of Some err \<Rightarrow> Some err | None \<Rightarrow> checkElements allow fs)"
  by (induction es) (simp_all split: option.splits)

section \<open>Encoding follows the wire format\<close>

lemma writeParameters_render:
  "writeParameters ps b = Some (b @ concat (map renderParam ps))"
  by (induction ps arbitrary: b) (simp_all add: escapeSDParam_escaped renderParam_def)

lemma writeElements_render:
  "writeElements es b = Some (b @ concat (map renderElement es))"
  by (induction es arbitrary: b) (simp_all add: writeParameters_render renderElement_def)

lemma MarshalBinaryWith_valid:
  "assertValidWith allow m = None \<Longrightarrow>
   MarshalBinaryWith allow m
     = Some (Inr (wireFormat (formatInt (PRI m)) m))"
  by (simp add: MarshalBinaryWith_def wireFormat_def wireHeader_def wireBody_def PRI_def
      writeElements_render renderSD_def nilify_def nilvalue_def Let_def)

lemma MarshalBinaryWith_invalid:
  "assertValidWith allow m = Some err \<Longrightarrow> MarshalBinaryWith allow m = Some (Inl err)"
  by (simp add: MarshalBinaryWith_def)

lemma of_char_digitChar: "(of_char (digitChar d) :: nat) = 48 + d mod 10"
proof -
  have "k < 10 \<Longrightarrow> (of_char (''0123456789'' ! k) :: nat) = 48 + k" for k
    by (auto simp: less_Suc_eq eval_nat_numeral)
  then show ?thesis by (simp add: digitChar_def)
qed

lemma decimalValue_snoc:
  "decimalValue (ds @ [c]) = 10 * decimalValue ds + (of_char c - 48)"
  by (simp add: decimalValue_def)

lemma digitsOf_nonempty: "digitsOf n \<noteq> []"
  by (subst digitsOf.simps) simp

lemma digitsOf_digits: "list_all isDigit (digitsOf n)"
proof (induction n rule: digitsOf.induct)
  case (1 n)
  have d: "isDigit (digitChar k)" for k
    by (simp add: isDigit_def of_char_digitChar)
  show ?case
    by (subst digitsOf.simps) (use 1 d in auto)
qed

lemma decimalValue_digitsOf: "decimalValue (digitsOf n) = n"
proof (induction n rule: digitsOf.induct)
  case (1 n)
  show ?case
  proof (cases "n < 10")
    case True
    then show ?thesis
      by (subst digitsOf.simps) (simp add: decimalValue_def of_char_digitChar)
  next
    case False
    with 1 show ?thesis
      by (subst digitsOf.simps) (simp add: decimalValue_snoc of_char_digitChar)
  qed
qed

lemma digitChar_zero: "digitChar d = CHR ''0'' \<longleftrightarrow> d mod 10 = 0"
proof -
  have "(of_char (digitChar d) :: nat) = of_char (CHR ''0'') \<longleftrightarrow> d mod 10 = 0"
    by (simp add: of_char_digitChar)
  then show ?thesis by (simp only: of_char_eq_iff)
qed

lemma hd_digitsOf: "hd (digitsOf n) = CHR ''0'' \<Longrightarrow> n = 0"
proof (induction n rule: digitsOf.induct)
  case (1 n)
  show ?case
  proof (cases "n < 10")
    case True
    with "1.prems" show ?thesis
      by (subst (asm) digitsOf.simps) (simp add: digitChar_zero)
  next
    case False
    then have "hd (digitsOf n) = hd (digitsOf (n div 10))"
      by (subst digitsOf.simps) (simp add: digitsOf_nonempty)
    with 1 False have "n div 10 = 0" by simp
    with False show ?thesis by simp
  qed
qed

section \<open>The encoder's contract\<close>

lemma replicate_numeral_unfold:
  "replicate (numeral k) x = x # replicate (pred_numeral k) x"
  by (simp add: numeral_eq_Suc)

lemmas format_eval =
  formatRFC3339Nano_def appendInt_def formatNano_def formatZone_def trimZeros_def
  formatInt_def digitsOf.simps digitChar_def replicate_numeral_unfold quot_def

lemma example8_valid: "assertValidWith allow example8 = None"
  by (simp add: assertValidWith_firstViolation firstViolation_def ruleViolations_def
      violation_def fieldRule_def printableByte_def example8_def)

lemma example8_wire:
  "wireFormat (formatInt (PRI example8)) example8
     = ''<34>1 2003-10-11T22:14:15.003Z mymachine.example.com su - ID47 - ''
       @ [CHR 0x27] @ ''su root'' @ [CHR 0x27] @ '' failed for lonvick on /dev/pts/8''"
  by (simp add: wireFormat_def wireHeader_def wireBody_def renderSD_def nilvalue_def PRI_def
      example8_def format_eval)

lemma PRI_nonneg:
  assumes "assertValidWith allow m = None"
  shows "0 \<le> PRI m"
proof -
  from assms have "0 \<le> Severity m \<and> 0 \<le> Facility m"
    by (simp add: assertValidWith_def split: if_splits)
  then show ?thesis by (simp add: PRI_def)
qed

lemma formatInt_decimal:
  assumes "0 \<le> i"
  shows "formatInt i \<noteq> []" and "list_all isDigit (formatInt i)"
    and "int (decimalValue (formatInt i)) = i"
    and "hd (formatInt i) = CHR ''0'' \<Longrightarrow> i = 0"
  using assms hd_digitsOf [of "nat i"]
  by (simp_all add: formatInt_def digitsOf_nonempty digitsOf_digits decimalValue_digitsOf)

text \<open>
  C3. For every message that passes validation, \<open>MarshalBinary\<close> returns exactly
  \<open><PRI>1 TIMESTAMP HOST APPNAME PROCID MSGID SD\<close>, followed by one space and the body
  only when the body is not empty. PRI is \<open>Severity | (Facility << 3)\<close> in decimal digits
  with no leading zero, an empty header string and an empty element list render as \<open>-\<close>,
  and each element renders as \<open>[ID name="escaped value" ...]\<close>, the elements concatenated in
  list order with nothing between them. The end-to-end example of the specification
  encodes to the bytes the specification gives.
\<close>

theorem MarshalBinary_wire_format:
  "(assertValid m = None \<longrightarrow>
      MarshalBinary m = Some (Inr (wireFormat (formatInt (PRI m)) m))
      \<and> formatInt (PRI m) \<noteq> [] \<and> list_all isDigit (formatInt (PRI m))
      \<and> int (decimalValue (formatInt (PRI m))) = PRI m
      \<and> (hd (formatInt (PRI m)) = CHR ''0'' \<longrightarrow> PRI m = 0))
   \<and> MarshalBinary example8
       = Some (Inr (''<34>1 2003-10-11T22:14:15.003Z mymachine.example.com su - ID47 - ''
                    @ [CHR 0x27] @ ''su root'' @ [CHR 0x27]
                    @ '' failed for lonvick on /dev/pts/8''))"
proof -
  have ex: "MarshalBinary example8 = Some (Inr (wireFormat (formatInt (PRI example8)) example8))"
    by (simp add: MarshalBinary_def MarshalBinaryWith_valid example8_valid)
  have gen: "MarshalBinary m = Some (Inr (wireFormat (formatInt (PRI m)) m))
      \<and> formatInt (PRI m) \<noteq> [] \<and> list_all isDigit (formatInt (PRI m))
      \<and> int (decimalValue (formatInt (PRI m))) = PRI m
      \<and> (hd (formatInt (PRI m)) = CHR ''0'' \<longrightarrow> PRI m = 0)"
    if v: "assertValid m = None"
  proof -
    from v have v': "assertValidWith allowLongSdNames m = None"
      by (simp add: assertValid_def)
    from PRI_nonneg [OF v'] have p: "0 \<le> PRI m" .
    show ?thesis
      using MarshalBinaryWith_valid [OF v'] formatInt_decimal [OF p]
      by (simp add: MarshalBinary_def)
  qed
  show ?thesis using gen ex by (simp only: example8_wire) blast
qed

theorem MarshalBinary_wire_format_witness:
  "assertValid example8 = None
   \<and> MarshalBinary example8 = Some (Inr (wireFormat ''34'' example8))
   \<and> decimalValue ''34'' = 34"
proof -
  have v: "assertValid example8 = None"
    by (simp add: assertValid_def example8_valid)
  have p: "formatInt (PRI example8) = ''34''"
    by (simp add: PRI_def example8_def format_eval)
  from MarshalBinary_wire_format [of example8] v p show ?thesis
    by (simp add: decimalValue_def)
qed

text \<open>
  C4. \<open>MarshalBinary\<close> returns an invalid-value error exactly when the message breaks a
  validation rule, and the error carries the property and the value of the first broken
  rule in validation order; no bytes are returned then. A message that breaks no rule is
  encoded. The ceiling of 32 bytes belongs to the sd-name rule only when the toggle is
  strict, so the statement is made for either setting of the toggle.
\<close>

theorem MarshalBinary_error_iff:
  "MarshalBinaryWith allow m =
     (case ruleViolations allow m of
        [] \<Rightarrow> Some (Inr (wireFormat (formatInt (PRI m)) m))
      | (property, v) # _ \<Rightarrow> Some (Inl (InvalidValue property v)))"
proof (cases "ruleViolations allow m")
  case Nil
  then have "assertValidWith allow m = None"
    by (simp add: assertValidWith_firstViolation firstViolation_def)
  with Nil show ?thesis by (simp add: MarshalBinaryWith_valid)
next
  case (Cons pv pvs)
  obtain property v where pv: "pv = (property, v)" by (cases pv)
  with Cons have "assertValidWith allow m = Some (InvalidValue property v)"
    by (simp add: assertValidWith_firstViolation firstViolation_def)
  with Cons pv show ?thesis by (simp add: MarshalBinaryWith_invalid)
qed

lemma longName33_length: "length longName33 = 33"
  by (simp add: longName33_def)

lemma longName33_bytes: "list_all sdNameByte longName33"
  by (simp add: longName33_def list_all_iff sdNameByte_def printableByte_def rbracket_def dquote_def)

lemma assertValidWith_header:
  "assertValidWith allow (m \<lparr> StructuredData := [] \<rparr>) = None \<Longrightarrow>
   assertValidWith allow m = checkElements allow (StructuredData m)"
  by (simp add: assertValidWith_def split: if_splits)

lemma messageLongID_header:
  "assertValidWith allow (messageLongID \<lparr> StructuredData := [] \<rparr>) = None"
proof -
  have "messageLongID \<lparr> StructuredData := [] \<rparr> = example8"
    by (simp add: messageLongID_def example8_def)
  then show ?thesis by (simp add: example8_valid)
qed

lemma messageLongID_sd:
  "StructuredData messageLongID = [\<lparr> ID = longName33, Parameters = [] \<rparr>]"
  by (simp add: messageLongID_def)

text \<open>
  C1, as the specification states it, does not hold of the source: the toggle is compiled
  as permissive, and a message whose element is named by 33 letters passes validation and
  is encoded.
\<close>

theorem permissive_accepts_long_name:
  "length (ID (hd (StructuredData messageLongID))) = 33
   \<and> assertValid messageLongID = None
   \<and> MarshalBinary messageLongID
       = Some (Inr (wireFormat ''34'' messageLongID))"
proof -
  have h: "assertValidWith True (messageLongID \<lparr> StructuredData := [] \<rparr>) = None"
    by (rule messageLongID_header)
  have v: "assertValidWith True messageLongID = None"
    unfolding assertValidWith_header [OF h] messageLongID_sd
    by (simp add: isValidSdNameWith_rule sdNameRule_def longName33_bytes)
  have p: "formatInt (PRI messageLongID) = ''34''"
    by (simp add: PRI_def messageLongID_def example8_def format_eval)
  show ?thesis
    using v MarshalBinaryWith_valid [OF v] p
    by (simp add: assertValid_def MarshalBinary_def allowLongSdNames_def)
       (simp add: messageLongID_def longName33_length)
qed

lemma long_name_violation:
  assumes "e \<in> set es"
    and "32 < length (ID e) \<or> (\<exists>p \<in> set (Parameters e). 32 < length (Name p))"
  shows "concat (map (elementViolations False) es) \<noteq> []"
proof -
  have "elementViolations False e \<noteq> []"
  proof (cases "32 < length (ID e)")
    case True
    then show ?thesis
      by (simp add: elementViolations_def violation_def sdNameRule_def)
  next
    case False
    with assms(2) obtain p where p: "p \<in> set (Parameters e)" "32 < length (Name p)"
      by blast
    then have "paramViolations False p \<noteq> []"
      by (simp add: paramViolations_def violation_def sdNameRule_def)
    with p(1) have "concat (map (paramViolations False) (Parameters e)) \<noteq> []"
      by auto
    then show ?thesis by (simp add: elementViolations_def)
  qed
  with assms(1) show ?thesis by auto
qed

text \<open>
  C1, amended. With the toggle as the source compiles it, \<open>isValidSdName\<close> looks at the
  bytes of a name only, never at its length. With the toggle set to strict, every message
  that holds an element ID or a parameter name longer than 32 bytes is rejected:
  \<open>assertValid\<close> returns, and \<open>MarshalBinary\<close> passes on, the invalid-value error of the
  first broken rule in validation order. When the message without its structured data is
  valid and the elements before the element pass, an ID longer than 32 bytes is reported as
  \<open>StructuredData/ID\<close> with that ID; when moreover the element's ID is a valid name and the
  parameters before the parameter pass, a parameter name longer than 32 bytes is reported
  as \<open>StructuredData/Name\<close> with that name.
\<close>

theorem strict_rejects_long_names:
  "(isValidSdName s \<longleftrightarrow> list_all sdNameByte s)
   \<and> (e \<in> set (StructuredData m)
        \<and> (32 < length (ID e) \<or> (\<exists>p \<in> set (Parameters e). 32 < length (Name p)))
      \<longrightarrow> ruleViolations False m \<noteq> []
          \<and> assertValidWith False m
              = Some (InvalidValue (fst (hd (ruleViolations False m)))
                                   (snd (hd (ruleViolations False m))))
          \<and> MarshalBinaryWith False m
              = Some (Inl (InvalidValue (fst (hd (ruleViolations False m)))
                                        (snd (hd (ruleViolations False m))))))
   \<and> (assertValidWith False (m \<lparr> StructuredData := [] \<rparr>) = None
        \<and> StructuredData m = pre @ e # post \<and> checkElements False pre = None
        \<and> 32 < length (ID e)
      \<longrightarrow> assertValidWith False m
            = Some (InvalidValue ''StructuredData/ID'' (StringValue (ID e)))
          \<and> MarshalBinaryWith False m
            = Some (Inl (InvalidValue ''StructuredData/ID'' (StringValue (ID e)))))
   \<and> (assertValidWith False (m \<lparr> StructuredData := [] \<rparr>) = None
        \<and> StructuredData m = pre @ e # post \<and> checkElements False pre = None
        \<and> isValidSdNameWith False (ID e)
        \<and> Parameters e = ps @ p # qs \<and> checkParameters False ps = None
        \<and> 32 < length (Name p)
      \<longrightarrow> assertValidWith False m
            = Some (InvalidValue ''StructuredData/Name'' (StringValue (Name p)))
          \<and> MarshalBinaryWith False m
            = Some (Inl (InvalidValue ''StructuredData/Name'' (StringValue (Name p)))))"
proof -
  have perm: "isValidSdName s \<longleftrightarrow> list_all sdNameByte s"
    by (simp add: isValidSdName_def allowLongSdNames_def isValidSdNameWith_rule sdNameRule_def)
  have first: "ruleViolations False m \<noteq> []
          \<and> assertValidWith False m
              = Some (InvalidValue (fst (hd (ruleViolations False m)))
                                   (snd (hd (ruleViolations False m))))
          \<and> MarshalBinaryWith False m
              = Some (Inl (InvalidValue (fst (hd (ruleViolations False m)))
                                        (snd (hd (ruleViolations False m)))))"
    if mem: "e \<in> set (StructuredData m)"
      and long: "32 < length (ID e) \<or> (\<exists>p \<in> set (Parameters e). 32 < length (Name p))"
  proof -
    from long_name_violation [OF mem long] have ne: "ruleViolations False m \<noteq> []"
      by (simp add: ruleViolations_def)
    then obtain property v rest where rv: "ruleViolations False m = (property, v) # rest"
      by (cases "ruleViolations False m") auto
    then have av: "assertValidWith False m = Some (InvalidValue property v)"
      by (simp add: assertValidWith_firstViolation firstViolation_def)
    from ne av MarshalBinaryWith_invalid [OF av] show ?thesis by (simp add: rv)
  qed
  have longID: "assertValidWith False m
            = Some (InvalidValue ''StructuredData/ID'' (StringValue (ID e)))
          \<and> MarshalBinaryWith False m
            = Some (Inl (InvalidValue ''StructuredData/ID'' (StringValue (ID e))))"
    if h: "assertValidWith False (m \<lparr> StructuredData := [] \<rparr>) = None"
      and sd: "StructuredData m = pre @ e # post" and before: "checkElements False pre = None"
      and long: "32 < length (ID e)"
  proof -
    from long have "\<not> isValidSdNameWith False (ID e)"
      by (simp add: isValidSdNameWith_def)
    then have "checkElements False (pre @ e # post)
                 = Some (InvalidValue ''StructuredData/ID'' (StringValue (ID e)))"
      by (simp add: checkElements_append before)
    then have av: "assertValidWith False m
                     = Some (InvalidValue ''StructuredData/ID'' (StringValue (ID e)))"
      by (simp add: assertValidWith_header [OF h] sd)
    from av MarshalBinaryWith_invalid [OF av] show ?thesis by simp
  qed
  have longName: "assertValidWith False m
            = Some (InvalidValue ''StructuredData/Name'' (StringValue (Name p)))
          \<and> MarshalBinaryWith False m
            = Some (Inl (InvalidValue ''StructuredData/Name'' (StringValue (Name p))))"
    if h: "assertValidWith False (m \<lparr> StructuredData := [] \<rparr>) = None"
      and sd: "StructuredData m = pre @ e # post" and before: "checkElements False pre = None"
      and idok: "isValidSdNameWith False (ID e)"
      and ps: "Parameters e = ps @ p # qs" and pbefore: "checkParameters False ps = None"
      and long: "32 < length (Name p)"
  proof -
    from long have "\<not> isValidSdNameWith False (Name p)"
      by (simp add: isValidSdNameWith_def)
    then have "checkParameters False (ps @ p # qs)
                 = Some (InvalidValue ''StructuredData/Name'' (StringValue (Name p)))"
      by (simp add: checkParameters_append pbefore)
    with idok have "checkElements False (pre @ e # post)
                 = Some (InvalidValue ''StructuredData/Name'' (StringValue (Name p)))"
      by (simp add: checkElements_append before ps)
    then have av: "assertValidWith False m
                     = Some (InvalidValue ''StructuredData/Name'' (StringValue (Name p)))"
      by (simp add: assertValidWith_header [OF h] sd)
    from av MarshalBinaryWith_invalid [OF av] show ?thesis by simp
  qed
  have A: "e \<in> set (StructuredData m)
        \<and> (32 < length (ID e) \<or> (\<exists>p \<in> set (Parameters e). 32 < length (Name p)))
      \<longrightarrow> ruleViolations False m \<noteq> []
          \<and> assertValidWith False m
              = Some (InvalidValue (fst (hd (ruleViolations False m)))
                                   (snd (hd (ruleViolations False m))))
          \<and> MarshalBinaryWith False m
              = Some (Inl (InvalidValue (fst (hd (ruleViolations False m)))
                                        (snd (hd (ruleViolations False m)))))"
    by (intro impI, elim conjE, rule first, assumption+)
  have B: "assertValidWith False (m \<lparr> StructuredData := [] \<rparr>) = None
        \<and> StructuredData m = pre @ e # post \<and> checkElements False pre = None
        \<and> 32 < length (ID e)
      \<longrightarrow> assertValidWith False m
            = Some (InvalidValue ''StructuredData/ID'' (StringValue (ID e)))
          \<and> MarshalBinaryWith False m
            = Some (Inl (InvalidValue ''StructuredData/ID'' (StringValue (ID e))))"
    by (intro impI, elim conjE, rule longID, assumption+)
  have C: "assertValidWith False (m \<lparr> StructuredData := [] \<rparr>) = None
        \<and> StructuredData m = pre @ e # post \<and> checkElements False pre = None
        \<and> isValidSdNameWith False (ID e)
        \<and> Parameters e = ps @ p # qs \<and> checkParameters False ps = None
        \<and> 32 < length (Name p)
      \<longrightarrow> assertValidWith False m
            = Some (InvalidValue ''StructuredData/Name'' (StringValue (Name p)))
          \<and> MarshalBinaryWith False m
            = Some (Inl (InvalidValue ''StructuredData/Name'' (StringValue (Name p))))"
    by (intro impI, elim conjE, rule longName, assumption+)
  show ?thesis
    by (rule conjI [OF perm conjI [OF A conjI [OF B C]]])
qed

lemma messageLongName_header:
  "assertValidWith allow (messageLongName \<lparr> StructuredData := [] \<rparr>) = None"
proof -
  have "messageLongName \<lparr> StructuredData := [] \<rparr> = example8"
    by (simp add: messageLongName_def example8_def)
  then show ?thesis by (simp add: example8_valid)
qed

theorem strict_rejects_long_names_witness:
  "StructuredData messageLongID = [] @ \<lparr> ID = longName33, Parameters = [] \<rparr> # []
   \<and> 32 < length longName33
   \<and> assertValidWith False messageLongID
       = Some (InvalidValue ''StructuredData/ID'' (StringValue longName33))
   \<and> MarshalBinaryWith False messageLongID
       = Some (Inl (InvalidValue ''StructuredData/ID'' (StringValue longName33)))
   \<and> assertValidWith False messageLongName
       = Some (InvalidValue ''StructuredData/Name'' (StringValue longName33))
   \<and> MarshalBinaryWith False messageLongName
       = Some (Inl (InvalidValue ''StructuredData/Name'' (StringValue longName33)))"
proof -
  have l: "32 < length longName33"
    by (simp add: longName33_length)
  have x: "isValidSdNameWith False ''x''"
    by (simp add: isValidSdNameWith_rule sdNameRule_def sdNameByte_def printableByte_def
        rbracket_def dquote_def)
  have sdn: "StructuredData messageLongName
               = [] @ \<lparr> ID = ''x'', Parameters = [\<lparr> Name = longName33, Value = ''v'' \<rparr>] \<rparr> # []"
    by (simp add: messageLongName_def)
  note idCase =
    strict_rejects_long_names
      [of longName33 "\<lparr> ID = longName33, Parameters = [] \<rparr>" messageLongID "[]" "[]",
       THEN conjunct2, THEN conjunct2, THEN conjunct1, THEN mp]
  have hypID: "assertValidWith False (messageLongID \<lparr> StructuredData := [] \<rparr>) = None
        \<and> StructuredData messageLongID = [] @ \<lparr> ID = longName33, Parameters = [] \<rparr> # []
        \<and> checkElements False [] = None
        \<and> 32 < length (ID \<lparr> ID = longName33, Parameters = [] \<rparr>)"
    using messageLongID_header [of False] messageLongID_sd l by simp
  from idCase [OF hypID]
  have a: "assertValidWith False messageLongID
             = Some (InvalidValue ''StructuredData/ID'' (StringValue longName33))
           \<and> MarshalBinaryWith False messageLongID
             = Some (Inl (InvalidValue ''StructuredData/ID'' (StringValue longName33)))"
    by simp
  note nameCase =
    strict_rejects_long_names
      [of longName33 "\<lparr> ID = ''x'', Parameters = [\<lparr> Name = longName33, Value = ''v'' \<rparr>] \<rparr>"
          messageLongName "[]" "[]" "[]" "\<lparr> Name = longName33, Value = ''v'' \<rparr>" "[]",
       THEN conjunct2, THEN conjunct2, THEN conjunct2, THEN mp]
  have hypName: "assertValidWith False (messageLongName \<lparr> StructuredData := [] \<rparr>) = None
        \<and> StructuredData messageLongName
            = [] @ \<lparr> ID = ''x'', Parameters = [\<lparr> Name = longName33, Value = ''v'' \<rparr>] \<rparr> # []
        \<and> checkElements False [] = None
        \<and> isValidSdNameWith False
              (ID \<lparr> ID = ''x'', Parameters = [\<lparr> Name = longName33, Value = ''v'' \<rparr>] \<rparr>)
        \<and> Parameters \<lparr> ID = ''x'', Parameters = [\<lparr> Name = longName33, Value = ''v'' \<rparr>] \<rparr>
            = [] @ \<lparr> Name = longName33, Value = ''v'' \<rparr> # []
        \<and> checkParameters False [] = None
        \<and> 32 < length (Name \<lparr> Name = longName33, Value = ''v'' \<rparr>)"
    using messageLongName_header [of False] sdn l x by simp
  from nameCase [OF hypName]
  have b: "assertValidWith False messageLongName
             = Some (InvalidValue ''StructuredData/Name'' (StringValue longName33))
           \<and> MarshalBinaryWith False messageLongName
             = Some (Inl (InvalidValue ''StructuredData/Name'' (StringValue longName33)))"
    by simp
  from a b l messageLongID_sd show ?thesis by simp
qed

lemma assertValidWith_append:
  assumes "assertValidWith allow m = None"
  shows "assertValidWith allow (m \<lparr> StructuredData := StructuredData m @ es \<rparr>)
           = checkElements allow es"
proof -
  from assms have h: "assertValidWith allow (m \<lparr> StructuredData := [] \<rparr>) = None"
    by (simp add: assertValidWith_def split: if_splits)
  then have h': "assertValidWith allow
                  ((m \<lparr> StructuredData := StructuredData m @ es \<rparr>) \<lparr> StructuredData := [] \<rparr>) = None"
    by simp
  from assertValidWith_header [OF h] assms have "checkElements allow (StructuredData m) = None"
    by simp
  then show ?thesis
    unfolding assertValidWith_header [OF h']
    by (simp add: checkElements_append)
qed

lemma wireFormat_append:
  "wireFormat pri (m \<lparr> StructuredData := StructuredData m @ [e] \<rparr>)
     = wireHeader pri m @ concat (map renderElement (StructuredData m)) @ renderElement e
       @ wireBody m"
  by (simp add: wireFormat_def wireHeader_def wireBody_def renderSD_def)

lemma MarshalBinaryWith_append:
  assumes "assertValidWith allow m = None" and "checkElements allow [e] = None"
  shows "assertValidWith allow (m \<lparr> StructuredData := StructuredData m @ [e] \<rparr>) = None"
    and "MarshalBinaryWith allow (m \<lparr> StructuredData := StructuredData m @ [e] \<rparr>)
           = Some (Inr (wireHeader (formatInt (PRI m)) m
                        @ concat (map renderElement (StructuredData m)) @ renderElement e
                        @ wireBody m))"
proof -
  show v: "assertValidWith allow (m \<lparr> StructuredData := StructuredData m @ [e] \<rparr>) = None"
    using assms by (simp only: assertValidWith_append)
  have p: "PRI (m \<lparr> StructuredData := StructuredData m @ [e] \<rparr>) = PRI m"
    by (simp add: PRI_def)
  show "MarshalBinaryWith allow (m \<lparr> StructuredData := StructuredData m @ [e] \<rparr>)
           = Some (Inr (wireHeader (formatInt (PRI m)) m
                        @ concat (map renderElement (StructuredData m)) @ renderElement e
                        @ wireBody m))"
    using MarshalBinaryWith_valid [OF v] by (simp only: p wireFormat_append)
qed

text \<open>
  C9. The empty string is accepted as an element ID and as a parameter name. Appending
  to a valid message an element whose ID is empty leaves it valid, and \<open>MarshalBinary\<close>
  encodes that element as \<open>[]\<close>; with one parameter of empty name and a value that is
  valid UTF-8 the element is encoded as \<open>[ ="escaped value"]\<close>.
\<close>

theorem empty_sd_name_accepted:
  "isValidSdName []
   \<and> (assertValid m = None \<and> ValidString v \<longrightarrow>
        assertValid (m \<lparr> StructuredData := StructuredData m @ [\<lparr> ID = [], Parameters = [] \<rparr>] \<rparr>)
          = None
        \<and> MarshalBinary (m \<lparr> StructuredData := StructuredData m @ [\<lparr> ID = [], Parameters = [] \<rparr>] \<rparr>)
          = Some (Inr (wireHeader (formatInt (PRI m)) m
                       @ concat (map renderElement (StructuredData m)) @ ''[]'' @ wireBody m))
        \<and> assertValid (m \<lparr> StructuredData := StructuredData m
                             @ [\<lparr> ID = [], Parameters = [\<lparr> Name = [], Value = v \<rparr>] \<rparr>] \<rparr>)
          = None
        \<and> MarshalBinary (m \<lparr> StructuredData := StructuredData m
                               @ [\<lparr> ID = [], Parameters = [\<lparr> Name = [], Value = v \<rparr>] \<rparr>] \<rparr>)
          = Some (Inr (wireHeader (formatInt (PRI m)) m
                       @ concat (map renderElement (StructuredData m))
                       @ ''[ ='' @ [dquote] @ escaped v @ [dquote] @ '']'' @ wireBody m)))"
proof -
  have e: "isValidSdNameWith allowLongSdNames []"
    by (simp add: isValidSdNameWith_def)
  have r1: "renderElement \<lparr> ID = [], Parameters = [] \<rparr> = ''[]''"
    by (simp add: renderElement_def)
  have r2: "renderElement \<lparr> ID = [], Parameters = [\<lparr> Name = [], Value = v \<rparr>] \<rparr>
              = ''[ ='' @ [dquote] @ escaped v @ [dquote] @ '']''"
    by (simp add: renderElement_def renderParam_def)
  have c1: "checkElements allowLongSdNames [\<lparr> ID = [], Parameters = [] \<rparr>] = None"
    using e by simp
  have c2: "checkElements allowLongSdNames
              [\<lparr> ID = [], Parameters = [\<lparr> Name = [], Value = v \<rparr>] \<rparr>] = None"
    if "ValidString v"
    using e that by simp
  show ?thesis
    using e MarshalBinaryWith_append [of allowLongSdNames m, OF _ c1]
      MarshalBinaryWith_append [of allowLongSdNames m, OF _ c2]
    unfolding assertValid_def MarshalBinary_def isValidSdName_def r1 r2
    by simp
qed

theorem empty_sd_name_accepted_witness:
  "assertValid example8 = None \<and> ValidString ''value''
   \<and> MarshalBinary (example8 \<lparr> StructuredData := [\<lparr> ID = [], Parameters = [] \<rparr>] \<rparr>)
       = Some (Inr (''<34>1 2003-10-11T22:14:15.003Z mymachine.example.com su - ID47 []''
                    @ wireBody example8))
   \<and> MarshalBinary (example8 \<lparr> StructuredData :=
                        [\<lparr> ID = [], Parameters = [\<lparr> Name = [], Value = ''value'' \<rparr>] \<rparr>] \<rparr>)
       = Some (Inr (''<34>1 2003-10-11T22:14:15.003Z mymachine.example.com su - ID47 [ =''
                    @ [dquote] @ ''value'' @ [dquote] @ '']'' @ wireBody example8))"
proof -
  have v: "assertValid example8 = None"
    by (simp add: assertValid_def example8_valid)
  have u: "ValidString ''value''"
    by simp
  have sd: "StructuredData example8 = []"
    by (simp add: example8_def)
  have h: "wireHeader (formatInt (PRI example8)) example8
             = ''<34>1 2003-10-11T22:14:15.003Z mymachine.example.com su - ID47 ''"
    by (simp add: wireHeader_def nilvalue_def PRI_def example8_def format_eval)
  have es: "escaped ''value'' = ''value''"
    by (simp add: escaped_def escapeByte_def needsEscape_def backslash_def dquote_def rbracket_def)
  from empty_sd_name_accepted [of example8 "''value''"] v u show ?thesis
    by (simp add: sd h es)
qed

text \<open>
  C10. Validation does not look at the timestamp: two messages that differ only in
  \<open>Timestamp\<close> get the same result from \<open>assertValid\<close>, and \<open>MarshalBinary\<close> returns an
  error exactly when \<open>assertValid\<close> returns it, so never on account of the timestamp.
\<close>

theorem timestamp_not_validated:
  "assertValid (m \<lparr> Timestamp := t \<rparr>) = assertValid m
   \<and> (MarshalBinary m = Some (Inl err) \<longleftrightarrow> assertValid m = Some err)
   \<and> (MarshalBinary (m \<lparr> Timestamp := t \<rparr>) = Some (Inl err)
        \<longleftrightarrow> MarshalBinary m = Some (Inl err))"
proof -
  have a: "assertValidWith allow (m \<lparr> Timestamp := t \<rparr>) = assertValidWith allow m" for allow
    by (simp add: assertValidWith_def)
  have b: "MarshalBinaryWith allow n = Some (Inl err) \<longleftrightarrow> assertValidWith allow n = Some err"
    for allow n
  proof (cases "assertValidWith allow n")
    case None
    then show ?thesis by (simp add: MarshalBinaryWith_valid)
  next
    case (Some e)
    then show ?thesis by (simp add: MarshalBinaryWith_invalid)
  qed
  show ?thesis
    by (simp add: assertValid_def MarshalBinary_def a b)
qed

section \<open>Reflection: purity, caching and order\<close>

lemma tagAttrLoop_FieldIndex:
  "tagAttrLoop attrs p fn tn fr = Inr fr' \<Longrightarrow> FieldIndex fr' = FieldIndex fr"
  by (induction attrs arbitrary: fr) (auto split: if_splits)

lemma structuredDataField_Type:
  "structuredDataField env t i f r = Inr r' \<Longrightarrow> Type r' = Type r"
  by (auto simp: structuredDataField_def Let_def split: if_splits list.splits sum.splits)

lemma reflectField_Type:
  "reflectField env t i f r = Inr r' \<Longrightarrow> Type r' = Type r"
  by (auto simp: reflectField_def Let_def structuredDataField_Type
           split: if_splits option.splits)

lemma reflectFields_Type:
  "reflectFields env t i fs r = Inr r' \<Longrightarrow> Type r' = Type r"
proof (induction fs arbitrary: i r)
  case Nil
  then show ?case by simp
next
  case (Cons f fs)
  then show ?case
    by (auto split: sum.splits dest: reflectField_Type)
qed

lemma reflectImpl_Type:
  "reflectImpl env t = Inr r \<Longrightarrow> Type r = t"
  unfolding reflectImpl_def by (drule reflectFields_Type) simp


lemma descriptorsBelow_mono:
  "descriptorsBelow n r \<Longrightarrow> n \<le> k \<Longrightarrow> descriptorsBelow k r"
  by (auto simp: descriptorsBelow_def list_all_iff)

lemma descriptorsBelow_snoc:
  assumes "descriptorsBelow i r" and "0 \<le> i" and "FieldIndex fr = i"
  shows "descriptorsBelow (i + 1)
           (r \<lparr> StructuredDataFieldReflections := StructuredDataFieldReflections r @ [fr] \<rparr>)"
  using assms by (auto simp: descriptorsBelow_def list_all_iff sorted_wrt_append)

lemma descriptorsBelow_same:
  "descriptorsBelow i r \<Longrightarrow>
   StructuredDataFieldReflections r' = StructuredDataFieldReflections r \<Longrightarrow>
   descriptorsBelow (i + 1) r'"
  by (auto simp: descriptorsBelow_def list_all_iff)

lemma structuredDataField_descriptors:
  assumes "structuredDataField env t i f r = Inr r'" and "descriptorsBelow i r" and "0 \<le> i"
  shows "descriptorsBelow (i + 1) r'"
proof (cases "Tag f = [] \<and> PkgPath f \<noteq> []")
  case True
  with assms show ?thesis
    by (auto simp: structuredDataField_def intro: descriptorsBelow_same)
next
  case False
  show ?thesis
  proof (cases "Split (Tag f)")
    case Nil
    with assms False show ?thesis by (simp add: structuredDataField_def)
  next
    case (Cons tagPart0 attrs)
    show ?thesis
    proof (cases "attrs \<noteq> [] \<and> tagPart0 = [] \<and> hd attrs = ''message''")
      case True
      with assms False Cons have "r' = r \<lparr> MessageFieldIndex := i \<rparr>"
        by (simp add: structuredDataField_def)
      with assms(2) show ?thesis by (auto intro: descriptorsBelow_same)
    next
      case notmsg: False
      from assms(1) False Cons notmsg
      obtain fr where r': "r' = r \<lparr> StructuredDataFieldReflections :=
                                     StructuredDataFieldReflections r @ [fr] \<rparr>"
        and fi: "FieldIndex fr = i"
        by (auto simp: structuredDataField_def Let_def
                 split: if_splits list.splits sum.splits option.splits
                 dest!: tagAttrLoop_FieldIndex)
      from descriptorsBelow_snoc [OF assms(2) assms(3) fi] r' show ?thesis by simp
    qed
  qed
qed

lemma reflectField_descriptors:
  assumes "reflectField env t i f r = Inr r'" and "descriptorsBelow i r" and "0 \<le> i"
  shows "descriptorsBelow (i + 1) r'"
proof (cases "Name' f \<in> {''Severity'', ''Facility'', ''Timestamp'', ''Hostname'', ''AppName'',
                          ''ProcessID'', ''MessageID'', ''SDID'', ''Message''}")
  case True
  with assms(1) have "StructuredDataFieldReflections r' = StructuredDataFieldReflections r"
    by (auto simp: reflectField_def Let_def split: if_splits option.splits)
  with assms(2) show ?thesis by (rule descriptorsBelow_same)
next
  case False
  with assms(1) have "structuredDataField env t i f r = Inr r'"
    by (simp add: reflectField_def)
  from structuredDataField_descriptors [OF this assms(2) assms(3)] show ?thesis .
qed

lemma reflectFields_descriptors:
  "reflectFields env t i fs r = Inr r' \<Longrightarrow> descriptorsBelow i r \<Longrightarrow> 0 \<le> i \<Longrightarrow>
   descriptorsBelow (i + int (length fs)) r'"
proof (induction fs arbitrary: i r)
  case Nil
  then show ?case by simp
next
  case (Cons f fs)
  from Cons.prems(1) obtain r1 where
    s: "reflectField env t i f r = Inr r1" and rest: "reflectFields env t (i + 1) fs r1 = Inr r'"
    by (auto split: sum.splits)
  from reflectField_descriptors [OF s Cons.prems(2) Cons.prems(3)]
  have "descriptorsBelow (i + 1) r1" .
  from Cons.IH [OF rest this] Cons.prems(3) show ?case
    by (simp add: add.assoc)
qed

lemma reflectImpl_descriptors:
  assumes "reflectImpl env t = Inr r"
  shows "descriptorsBelow (int (length (Fields t))) r"
proof -
  from assms reflectFields_descriptors [of env t 0 "Fields t" _ r] show ?thesis
    by (simp add: reflectImpl_def descriptorsBelow_def)
qed


lemma find_hit: "find P xs = Some x \<Longrightarrow> x \<in> set xs \<and> P x"
  by (induction xs) (auto split: if_splits)

lemma find_snoc_miss: "find P xs = None \<Longrightarrow> P x \<Longrightarrow> find P (xs @ [x]) = Some x"
  by (induction xs) (auto split: if_splits)

lemma Reflect_result:
  assumes "cacheOK env c"
  shows "fst (Reflect env c t) = reflectImpl env t"
proof (cases "c (TypeName t)")
  case None
  then show ?thesis by (simp add: Reflect_def split: sum.splits)
next
  case (Some rs)
  show ?thesis
  proof (cases "find (\<lambda>r. Type r = t) rs")
    case None
    with Some show ?thesis by (simp add: Reflect_def split: sum.splits)
  next
    case (Some r)
    from find_hit [OF this] have "r \<in> set rs" and "Type r = t" by simp_all
    with assms \<open>c (TypeName t) = Some rs\<close> have "reflectImpl env t = Inr r"
      by (auto simp: cacheOK_def)
    with Some \<open>c (TypeName t) = Some rs\<close> show ?thesis by (simp add: Reflect_def)
  qed
qed

lemma cacheOK_update:
  assumes "cacheOK env c" and "\<forall>r \<in> set rs. reflectImpl env (Type r) = Inr r"
  shows "cacheOK env (c (name \<mapsto> rs))"
  using assms unfolding cacheOK_def by (auto split: if_splits)

lemma Reflect_cacheOK:
  assumes "cacheOK env c"
  shows "cacheOK env (snd (Reflect env c t))"
proof (cases "reflectImpl env t")
  case (Inl msg)
  with assms show ?thesis
    by (auto simp: Reflect_def split: option.splits)
next
  case (Inr r)
  from reflectImpl_Type [OF Inr] Inr have own: "reflectImpl env (Type r) = Inr r" by simp
  show ?thesis
  proof (cases "c (TypeName t)")
    case None
    with Inr own assms show ?thesis
      by (simp add: Reflect_def cacheOK_update)
  next
    case (Some rs)
    from assms Some have old: "\<forall>x \<in> set rs. reflectImpl env (Type x) = Inr x"
      by (auto simp: cacheOK_def)
    show ?thesis
    proof (cases "find (\<lambda>r. Type r = t) rs")
      case None
      with Some Inr own old assms show ?thesis
        by (simp add: Reflect_def cacheOK_update)
    next
      case hit: (Some x)
      with Some assms show ?thesis by (simp add: Reflect_def)
    qed
  qed
qed

lemma cacheOK_empty: "cacheOK env Map.empty"
  by (simp add: cacheOK_def)

lemma reflectAll_cacheOK:
  "cacheOK env c \<Longrightarrow> cacheOK env (reflectAll env c ts)"
  by (induction ts arbitrary: c) (simp_all add: Reflect_cacheOK)

lemma Reflect_again:
  "fst (Reflect env (snd (Reflect env c t)) t) = fst (Reflect env c t)"
proof (cases "reflectImpl env t")
  case (Inl msg)
  then show ?thesis
    by (auto simp: Reflect_def split: option.splits)
next
  case (Inr r)
  from reflectImpl_Type [OF Inr] have ty: "Type r = t" .
  show ?thesis
  proof (cases "c (TypeName t)")
    case None
    with Inr ty show ?thesis by (simp add: Reflect_def)
  next
    case (Some rs)
    show ?thesis
    proof (cases "find (\<lambda>r. Type r = t) rs")
      case None
      from find_snoc_miss [of "\<lambda>r. Type r = t" rs r, OF None ty] None Some Inr
      show ?thesis by (simp add: Reflect_def)
    next
      case hit: (Some x)
      with Some show ?thesis by (simp add: Reflect_def)
    qed
  qed
qed

text \<open>
  C7. Whatever calls of \<open>Reflect\<close> came before, starting from the empty cache, a call of
  \<open>Reflect\<close> returns what \<open>reflectImpl\<close> computes for the type (a function of the type's
  name, fields and tags, for fixed tables), so two calls for the same type return equal
  results, whichever of them computed the value, and whatever was reflected in between;
  calling \<open>Reflect\<close> twice in a row returns equal results from any cache. The
  structured-data descriptors of a reflection are listed by strictly increasing field
  index, that is, in the order in which the fields are declared.
\<close>

theorem Reflect_pure:
  "fst (Reflect env (reflectAll env Map.empty ts) t) = reflectImpl env t
   \<and> fst (Reflect env (reflectAll env (snd (Reflect env (reflectAll env Map.empty ts) t)) us) t)
       = fst (Reflect env (reflectAll env Map.empty ts) t)
   \<and> fst (Reflect env (snd (Reflect env c t)) t) = fst (Reflect env c t)
   \<and> (reflectImpl env t = Inr r \<longrightarrow>
        sorted_wrt (<) (map FieldIndex (StructuredDataFieldReflections r))
        \<and> (\<forall>d \<in> set (StructuredDataFieldReflections r).
              0 \<le> FieldIndex d \<and> FieldIndex d < int (length (Fields t))))"
proof -
  have ok: "cacheOK env (reflectAll env Map.empty ts)"
    by (simp add: reflectAll_cacheOK cacheOK_empty)
  have first: "fst (Reflect env (reflectAll env Map.empty ts) t) = reflectImpl env t"
    by (rule Reflect_result [OF ok])
  have "cacheOK env (reflectAll env (snd (Reflect env (reflectAll env Map.empty ts) t)) us)"
    by (intro reflectAll_cacheOK Reflect_cacheOK ok)
  from Reflect_result [OF this]
  have second: "fst (Reflect env (reflectAll env (snd (Reflect env (reflectAll env Map.empty ts) t)) us) t)
                  = reflectImpl env t" .
  have order: "sorted_wrt (<) (map FieldIndex (StructuredDataFieldReflections r))
        \<and> (\<forall>d \<in> set (StructuredDataFieldReflections r).
              0 \<le> FieldIndex d \<and> FieldIndex d < int (length (Fields t)))"
    if "reflectImpl env t = Inr r"
    using reflectImpl_descriptors [OF that] by (simp add: descriptorsBelow_def list_all_iff)
  from first second order Reflect_again [of env c t] show ?thesis by simp
qed


lemma toLowerBytes_examples:
  "toLowerBytes ''F'' = ''f''"
  "toLowerBytes [CHR 0xC3] = [CHR 0xEF, CHR 0xBF, CHR 0xBD]"
  by (simp_all add: toLowerBytes_def lowerByte_def)

lemmas reflect_eval =
  reflectImpl_def reflectField_def structuredDataField_def sdRegexpMatch_def
  isDigit_def isSpace_def defaultStructuredDataID_def Let_def

lemma orderType_reflection:
  "reflectImpl exampleEnv orderType = Inr orderReflection"
  by (simp add: reflect_eval orderType_def orderReflection_def exampleEnv_def)

theorem Reflect_pure_witness:
  "reflectImpl exampleEnv orderType = Inr orderReflection
   \<and> fst (Reflect exampleEnv (reflectAll exampleEnv Map.empty [bogusType]) orderType)
       = Inr orderReflection
   \<and> sorted_wrt (<) (map FieldIndex (StructuredDataFieldReflections orderReflection))
   \<and> map FieldIndex (StructuredDataFieldReflections orderReflection) = [1, 3, 4]"
proof -
  have l: "map FieldIndex (StructuredDataFieldReflections orderReflection) = [1, 3, 4]"
    by (simp add: orderReflection_def)
  from Reflect_pure [of exampleEnv "[bogusType]" orderType "[]" Map.empty orderReflection]
    orderType_reflection l
  show ?thesis by simp
qed

text \<open>
  C2. The loop over the attributes of a tag tests \<open>tagParts[1]\<close> in every round instead
  of the attribute at hand, so after a first attribute \<open>omitempty\<close> any further attribute
  is accepted: the type whose field is tagged \<open>name,omitempty,bogus\<close> is registered
  without a panic, with the parameter marked omit-if-empty.
\<close>

theorem reflectImpl_accepts_bogus_attribute:
  "map_sum id StructuredDataFieldReflections (reflectImpl env bogusType)
     = Inr [\<lparr> FieldIndex = 0, OmitEmpty = True, FieldName = ''name'', SdID = ''0@local'' \<rparr>]"
  by (simp add: reflect_eval bogusType_def)

end
